theory Spec2Isabelle
  imports Main "HOL-Library.Word" "HOL-Library.AList"
begin

section \<open>Object identifiers\<close>

text \<open>
  The storage key of a record is a \<^verbatim>\<open>primitive.ObjectID\<close>, twelve bytes. It is modelled
  as a 96-bit word. \<^verbatim>\<open>Hex\<close> renders it as 24 lower-case hexadecimal digits, most
  significant first; \<^verbatim>\<open>ObjectIDFromHex\<close> accepts exactly 24 hexadecimal digits of either
  case and otherwise returns the zero identifier together with an error.
\<close>

type_synonym ObjectID = "96 word"

datatype error =
    ErrInvalidHex
  | InvalidByteError
  | ErrNoDocuments
  | ErrDecode
  | ErrDuplicateKey
  | ErrStorage
  | ErrBind
  | ErrBadValue

definition NilObjectID :: ObjectID where
  "NilObjectID = 0"

definition hex_digit :: "nat \<Rightarrow> char" where
  "hex_digit n = (if n < 10 then char_of (48 + n) else char_of (87 + n))"

fun hex_nat :: "nat \<Rightarrow> nat \<Rightarrow> string" where
  "hex_nat 0 n = []"
| "hex_nat (Suc k) n = hex_nat k (n div 16) @ [hex_digit (n mod 16)]"

definition Hex :: "ObjectID \<Rightarrow> string" where
  "Hex oid = hex_nat 24 (unat oid)"

definition fromHexChar :: "char \<Rightarrow> nat option" where
  "fromHexChar c =
     (let n = (of_char c :: nat) in
      if 48 \<le> n \<and> n \<le> 57 then Some (n - 48)
      else if 97 \<le> n \<and> n \<le> 102 then Some (n - 87)
      else if 65 \<le> n \<and> n \<le> 70 then Some (n - 55)
      else None)"

fun hex_decode :: "string \<Rightarrow> nat \<Rightarrow> nat option" where
  "hex_decode [] acc = Some acc"
| "hex_decode (c # cs) acc =
     (case fromHexChar c of
        None \<Rightarrow> None
      | Some v \<Rightarrow> hex_decode cs (acc * 16 + v))"

definition ObjectIDFromHex :: "string \<Rightarrow> ObjectID \<times> error option" where
  "ObjectIDFromHex s =
     (if length s \<noteq> 24 then (NilObjectID, Some ErrInvalidHex)
      else case hex_decode s 0 of
             None \<Rightarrow> (NilObjectID, Some InvalidByteError)
           | Some n \<Rightarrow> (of_nat n, None))"

section \<open>Documents and the structs of the services\<close>

text \<open>
  A stored document is an ordered list of named values. Go's \<^verbatim>\<open>int\<close> is a 64-bit
  integer. \<^verbatim>\<open>BNull\<close> is the value of a filter element written without a value
  (\<^verbatim>\<open>bson.D{{Key: id}}\<close>, \<^verbatim>\<open>bson.D{{}}\<close>).
\<close>

datatype bval =
    BString string
  | BInt "64 word"
  | BObjectID ObjectID
  | BNull

type_synonym bdoc = "(string \<times> bval) list"

type_synonym collection = "bdoc list"

record BookStore =
  ID :: ObjectID
  BookName :: string
  BookAuthor :: string
  BookISBN :: string
  BookPages :: "64 word"
  BookYear :: "64 word"

record PostBookDTO =
  Name :: string
  Author :: string
  Pages :: "64 word"
  Year :: "64 word"
  Isbn :: string

text \<open>\<^verbatim>\<open>BookDTO\<close> has the fields of \<^verbatim>\<open>PostBookDTO\<close> and the identifier as a string.\<close>

record BookDTO = PostBookDTO +
  Id :: string

definition zero_BookStore :: BookStore where
  "zero_BookStore =
     \<lparr>ID = NilObjectID, BookName = [], BookAuthor = [], BookISBN = [],
      BookPages = 0, BookYear = 0\<rparr>"

text \<open>
  Marshalling a \<^verbatim>\<open>BookStore\<close>: the fields in declaration order under their lower-cased
  names; the identifier is tagged \<^verbatim>\<open>_id,omitempty\<close> and left out when it is zero.
\<close>

definition marshal_BookStore :: "BookStore \<Rightarrow> bdoc" where
  "marshal_BookStore b =
     (if ID b = NilObjectID then [] else [(''_id'', BObjectID (ID b))]) @
     [(''bookname'', BString (BookName b)),
      (''bookauthor'', BString (BookAuthor b)),
      (''bookisbn'', BString (BookISBN b)),
      (''bookpages'', BInt (BookPages b)),
      (''bookyear'', BInt (BookYear b))]"

text \<open>
  Unmarshalling into a \<^verbatim>\<open>BookStore\<close>: the elements of the document are read in order;
  an element whose name, or whose lower-cased name, is the name of a struct field is
  stored into that field (a later element overwrites an earlier one), any other element
  is skipped. A value of another type than the field's is a decoding error.
\<close>

definition lower_char :: "char \<Rightarrow> char" where
  "lower_char c =
     (let n = (of_char c :: nat) in
      if 65 \<le> n \<and> n \<le> 90 then char_of (n + 32) else c)"

definition ToLower :: "string \<Rightarrow> string" where
  "ToLower s = map lower_char s"

definition field_names :: "string list" where
  "field_names = [''_id'', ''bookname'', ''bookauthor'', ''bookisbn'', ''bookpages'', ''bookyear'']"

definition struct_field :: "string \<Rightarrow> string option" where
  "struct_field k =
     (if k \<in> set field_names then Some k
      else if ToLower k \<in> set field_names then Some (ToLower k)
      else None)"

definition decode_elem :: "BookStore \<Rightarrow> string \<times> bval \<Rightarrow> error + BookStore" where
  "decode_elem b kv =
     (case struct_field (fst kv) of
        None \<Rightarrow> Inr b
      | Some f \<Rightarrow>
          if f = ''_id'' then
            (case snd kv of BObjectID oid \<Rightarrow> Inr (b\<lparr>ID := oid\<rparr>) | _ \<Rightarrow> Inl ErrDecode)
          else if f = ''bookname'' then
            (case snd kv of BString s \<Rightarrow> Inr (b\<lparr>BookName := s\<rparr>) | _ \<Rightarrow> Inl ErrDecode)
          else if f = ''bookauthor'' then
            (case snd kv of BString s \<Rightarrow> Inr (b\<lparr>BookAuthor := s\<rparr>) | _ \<Rightarrow> Inl ErrDecode)
          else if f = ''bookisbn'' then
            (case snd kv of BString s \<Rightarrow> Inr (b\<lparr>BookISBN := s\<rparr>) | _ \<Rightarrow> Inl ErrDecode)
          else if f = ''bookpages'' then
            (case snd kv of BInt n \<Rightarrow> Inr (b\<lparr>BookPages := n\<rparr>) | _ \<Rightarrow> Inl ErrDecode)
          else
            (case snd kv of BInt n \<Rightarrow> Inr (b\<lparr>BookYear := n\<rparr>) | _ \<Rightarrow> Inl ErrDecode))"

fun decode_fields :: "bdoc \<Rightarrow> BookStore \<Rightarrow> error + BookStore" where
  "decode_fields [] b = Inr b"
| "decode_fields (kv # rest) b =
     (case decode_elem b kv of
        Inl e \<Rightarrow> Inl e
      | Inr b' \<Rightarrow> decode_fields rest b')"

definition decode_BookStore :: "bdoc \<Rightarrow> error + BookStore" where
  "decode_BookStore d = decode_fields d zero_BookStore"

fun decode_all :: "bdoc list \<Rightarrow> error + BookStore list" where
  "decode_all [] = Inr []"
| "decode_all (d # ds) =
     (case decode_BookStore d of
        Inl e \<Rightarrow> Inl e
      | Inr b \<Rightarrow> (case decode_all ds of Inl e \<Rightarrow> Inl e | Inr bs \<Rightarrow> Inr (b # bs)))"

section \<open>The shared collection\<close>

text \<open>
  The collection is the list of its documents in storage order. A filter is a document;
  a stored document matches it when every element of the filter matches: an element with
  a value matches a document that has the field with that value, an element with the null
  value matches a document that lacks the field or has it null. Every operation is one
  round trip to the database, which may fail for reasons outside the program: the flag
  \<open>fault\<close> of an operation says that this round trip fails.

  This is how a filter is read whose keys are names of fields. A key that begins with
  \<^verbatim>\<open>$\<close> is an operator of the query language, not a field, and a key with a zero
  byte is no key of a document at all. Every filter of this program but one has fixed
  keys, all of them names of fields; the fallback of the DELETE handler takes its key
  from the request.
\<close>

definition field_matches :: "bdoc \<Rightarrow> string \<times> bval \<Rightarrow> bool" where
  "field_matches d kv =
     (case map_of d (fst kv) of
        None \<Rightarrow> snd kv = BNull
      | Some w \<Rightarrow> w = snd kv)"

definition matches :: "bdoc \<Rightarrow> bdoc \<Rightarrow> bool" where
  "matches f d = list_all (field_matches d) f"

definition coll_ids :: "collection \<Rightarrow> bval list" where
  "coll_ids c = List.map_filter (\<lambda>d. map_of d ''_id'') c"

text \<open>\<^verbatim>\<open>coll.Find\<close> followed by \<^verbatim>\<open>cursor.All\<close> into a slice of \<^verbatim>\<open>BookStore\<close>.\<close>

definition Find_All :: "bool \<Rightarrow> bdoc \<Rightarrow> collection \<Rightarrow> error + BookStore list" where
  "Find_All fault f c =
     (if fault then Inl ErrStorage else decode_all (filter (matches f) c))"

text \<open>\<^verbatim>\<open>coll.FindOne(...).Decode\<close> into a \<^verbatim>\<open>BookStore\<close>.\<close>

definition FindOne_Decode :: "bool \<Rightarrow> bdoc \<Rightarrow> collection \<Rightarrow> error + BookStore" where
  "FindOne_Decode fault f c =
     (if fault then Inl ErrStorage
      else case filter (matches f) c of
             [] \<Rightarrow> Inl ErrNoDocuments
           | d # _ \<Rightarrow> decode_BookStore d)"

text \<open>
  \<^verbatim>\<open>coll.InsertOne\<close>: a document without \<^verbatim>\<open>_id\<close> gets the identifier \<open>new\<close> that the
  driver generates, as its first element; the collection refuses a second document with
  the same \<^verbatim>\<open>_id\<close>. The result is the inserted identifier.
\<close>

definition InsertOne :: "bool \<Rightarrow> ObjectID \<Rightarrow> bdoc \<Rightarrow> collection \<Rightarrow> error + (bval \<times> collection)" where
  "InsertOne fault new d c =
     (if fault then Inl ErrStorage
      else
        let d' = (case map_of d ''_id'' of
                    None \<Rightarrow> (''_id'', BObjectID new) # d
                  | Some v \<Rightarrow> d);
            key = (case map_of d ''_id'' of None \<Rightarrow> BObjectID new | Some v \<Rightarrow> v)
        in if key \<in> set (coll_ids c) then Inl ErrDuplicateKey
           else Inr (key, c @ [d']))"

fun delete_first :: "('a \<Rightarrow> bool) \<Rightarrow> 'a list \<Rightarrow> 'a list" where
  "delete_first P [] = []"
| "delete_first P (x # xs) = (if P x then xs else x # delete_first P xs)"

text \<open>
  A filter that holds a key which is not the name of a field is read by the query
  language of the database. Its reading is a parameter of the operation: \<open>None\<close> when
  the filter is refused, and otherwise the test it stands for. A key with dots is a
  path into embedded documents; the documents of this program embed none, so on them
  such a key is a name that no document has.
\<close>

definition field_key :: "string \<Rightarrow> bool" where
  "field_key k \<longleftrightarrow> \<not> (k \<noteq> [] \<and> hd k = CHR ''$'') \<and> CHR 0x00 \<notin> set k"

type_synonym reading = "bdoc \<Rightarrow> (bdoc \<Rightarrow> bool) option"

definition read_filter :: "reading \<Rightarrow> bdoc \<Rightarrow> (bdoc \<Rightarrow> bool) option" where
  "read_filter ops f =
     (if list_all (\<lambda>kv. field_key (fst kv)) f then Some (matches f) else ops f)"

text \<open>
  \<^verbatim>\<open>coll.DeleteOne\<close>: removes the first matching document; the result is the count.
  A filter that is refused is an error of the operation.
\<close>

definition DeleteOne ::
  "bool \<Rightarrow> reading \<Rightarrow> bdoc \<Rightarrow> collection \<Rightarrow> error + (nat \<times> collection)" where
  "DeleteOne fault ops f c =
     (if fault then Inl ErrStorage
      else case read_filter ops f of
             None \<Rightarrow> Inl ErrBadValue
           | Some P \<Rightarrow> Inr (if list_ex P c then 1 else 0, delete_first P c))"

fun update_first :: "('a \<Rightarrow> bool) \<Rightarrow> ('a \<Rightarrow> 'a) \<Rightarrow> 'a list \<Rightarrow> 'a list" where
  "update_first P g [] = []"
| "update_first P g (x # xs) = (if P x then g x # xs else x # update_first P g xs)"

text \<open>
  \<^verbatim>\<open>$set\<close>: a field that the document has is overwritten in place, a field that it
  lacks is added after the existing ones.
\<close>

fun set_fields :: "bdoc \<Rightarrow> bdoc \<Rightarrow> bdoc" where
  "set_fields [] d = d"
| "set_fields (kv # rest) d = set_fields rest (AList.update (fst kv) (snd kv) d)"

text \<open>\<^verbatim>\<open>coll.UpdateOne\<close> with a \<^verbatim>\<open>$set\<close> update; the result is the matched count.\<close>

definition UpdateOne :: "bool \<Rightarrow> bdoc \<Rightarrow> bdoc \<Rightarrow> collection \<Rightarrow> error + (nat \<times> collection)" where
  "UpdateOne fault f upd c =
     (if fault then Inl ErrStorage
      else Inr (if list_ex (matches f) c then 1 else 0,
                update_first (matches f) (set_fields upd) c))"

section \<open>Requests, replies and the handlers\<close>

text \<open>
  What the caller receives: a status and a body, or the error the handler returned before
  anything was written, or nothing because the handler panicked. \<^verbatim>\<open>NoBody\<close> is a
  reply of zero bytes.
\<close>

datatype body =
    JText string
  | JPost PostBookDTO
  | JBook BookDTO
  | JBooks "BookDTO list"
  | NoBody

datatype outcome =
    Reply nat body
  | Failed error
  | Panicked

text \<open>
  \<^verbatim>\<open>c.JSON(code, v)\<close> writes the status and then the encoded value. The HTTP server
  takes no body for an informational status, for 204 and for 304
  (\<^verbatim>\<open>bodyAllowedForStatus\<close>): the write fails with \<^verbatim>\<open>ErrBodyNotAllowed\<close>, the status has
  gone out by then, and the caller receives it with no body.
\<close>

definition bodyAllowedForStatus :: "nat \<Rightarrow> bool" where
  "bodyAllowedForStatus status \<longleftrightarrow>
     \<not> (100 \<le> status \<and> status \<le> 199) \<and> status \<noteq> 204 \<and> status \<noteq> 304"

definition JSON :: "nat \<Rightarrow> body \<Rightarrow> outcome" where
  "JSON code v = (if bodyAllowedForStatus code then Reply code v else Reply code NoBody)"

text \<open>
  What a request meets outside the program: whether its first and its second round trip
  to the database fail, and the identifier the driver generates if it inserts.
\<close>

record storage_env =
  fault1 :: bool
  fault2 :: bool
  fresh :: ObjectID

subsection \<open>POST /api/books of the POST service\<close>

definition objToComapare :: "PostBookDTO \<Rightarrow> bdoc" where
  "objToComapare book =
     (if Name book \<noteq> [] then [(''bookname'', BString (Name book))] else []) @
     (if Author book \<noteq> [] then [(''bookauthor'', BString (Author book))] else []) @
     (if Pages book \<noteq> 0 then [(''bookpages'', BInt (Pages book))] else []) @
     (if Year book \<noteq> 0 then [(''bookyear'', BInt (Year book))] else []) @
     (if Isbn book \<noteq> [] then [(''bookisbn'', BString (Isbn book))] else [])"

definition bookStore_of :: "PostBookDTO \<Rightarrow> BookStore" where
  "bookStore_of book =
     \<lparr>ID = NilObjectID, BookName = Name book, BookAuthor = Author book,
      BookISBN = Isbn book, BookPages = Pages book, BookYear = Year book\<rparr>"

definition payload_of :: "string \<Rightarrow> PostBookDTO \<Rightarrow> BookDTO" where
  "payload_of s book =
     \<lparr>Name = Name book, Author = Author book, Pages = Pages book, Year = Year book,
      Isbn = Isbn book, Id = s\<rparr>"

definition post_handler ::
  "storage_env \<Rightarrow> error + PostBookDTO \<Rightarrow> collection \<Rightarrow> collection \<times> outcome" where
  "post_handler env bound c =
     (case bound of
        Inl e \<Rightarrow> (c, JSON 304 (JText ''error in payload conversion ''))
      | Inr book \<Rightarrow>
          (case FindOne_Decode (fault1 env) (objToComapare book) c of
             Inr existingBook \<Rightarrow> (c, JSON 304 (JPost book))
           | Inl found \<Rightarrow>
               (case InsertOne (fault2 env) (fresh env) (marshal_BookStore (bookStore_of book)) c of
                  Inl e \<Rightarrow> (c, JSON 304 (JText ''invalid on insertion''))
                | Inr (insertedID, c') \<Rightarrow>
                    (case insertedID of
                       BObjectID bookId \<Rightarrow> (c', JSON 200 (JBook (payload_of (Hex bookId) book)))
                     | _ \<Rightarrow> (c', Panicked)))))"

subsection \<open>GET /api/books\<close>

text \<open>
  \<^verbatim>\<open>findAllBooks\<close> reads with the filter \<^verbatim>\<open>bson.D{{}}\<close>, a document of one element with
  the empty name and no value, and turns each result into a map from field names to
  values of any type. A failed read panics (\<open>None\<close>).
\<close>

datatype iface = IString string | IInt "64 word"

definition book_map :: "BookStore \<Rightarrow> (string \<times> iface) list" where
  "book_map res =
     [(''ID'', IString (Hex (ID res))),
      (''BookName'', IString (BookName res)),
      (''BookAuthor'', IString (BookAuthor res)),
      (''BookISBN'', IString (BookISBN res)),
      (''BookPages'', IInt (BookPages res)),
      (''BookYear'', IInt (BookYear res))]"

fun append_maps :: "BookStore list \<Rightarrow> (string \<times> iface) list list \<Rightarrow> (string \<times> iface) list list" where
  "append_maps [] ret = ret"
| "append_maps (res # results) ret = append_maps results (ret @ [book_map res])"

definition findAllBooks :: "bool \<Rightarrow> collection \<Rightarrow> (string \<times> iface) list list option" where
  "findAllBooks fault c =
     (case Find_All fault [([], BNull)] c of
        Inl e \<Rightarrow> None
      | Inr results \<Rightarrow> Some (append_maps results []))"

text \<open>The type assertions \<^verbatim>\<open>book[k].(string)\<close> and \<^verbatim>\<open>book[k].(int)\<close>; \<open>None\<close> is the panic.\<close>

definition as_string :: "(string \<times> iface) list \<Rightarrow> string \<Rightarrow> string option" where
  "as_string book k = (case map_of book k of Some (IString s) \<Rightarrow> Some s | _ \<Rightarrow> None)"

definition as_int :: "(string \<times> iface) list \<Rightarrow> string \<Rightarrow> 64 word option" where
  "as_int book k = (case map_of book k of Some (IInt n) \<Rightarrow> Some n | _ \<Rightarrow> None)"

definition dto_of_map :: "(string \<times> iface) list \<Rightarrow> BookDTO option" where
  "dto_of_map book =
     (case (as_string book ''ID'', as_string book ''BookName'', as_string book ''BookAuthor'',
            as_int book ''BookPages'', as_int book ''BookYear'', as_string book ''BookISBN'') of
        (Some i, Some n, Some a, Some p, Some y, Some s) \<Rightarrow>
          Some \<lparr>Name = n, Author = a, Pages = p, Year = y, Isbn = s, Id = i\<rparr>
      | _ \<Rightarrow> None)"

fun append_dtos :: "(string \<times> iface) list list \<Rightarrow> BookDTO list \<Rightarrow> BookDTO list option" where
  "append_dtos [] payload = Some payload"
| "append_dtos (book # books) payload =
     (case dto_of_map book of
        None \<Rightarrow> None
      | Some obj \<Rightarrow> append_dtos books (payload @ [obj]))"

definition get_handler :: "storage_env \<Rightarrow> collection \<Rightarrow> collection \<times> outcome" where
  "get_handler env c =
     (case findAllBooks (fault1 env) c of
        None \<Rightarrow> (c, Panicked)
      | Some books \<Rightarrow>
          (case append_dtos books [] of
             None \<Rightarrow> (c, Panicked)
           | Some payload \<Rightarrow> (c, JSON 200 (JBooks payload))))"

subsection \<open>PUT /api/books\<close>

text \<open>
  The error of \<^verbatim>\<open>ObjectIDFromHex\<close> is overwritten by the result of \<^verbatim>\<open>UpdateOne\<close>
  before anything reads it; the update sets the fields under their capitalised names.
\<close>

definition put_update :: "BookDTO \<Rightarrow> bdoc" where
  "put_update b =
     [(''BookName'', BString (Name b)),
      (''BookAuthor'', BString (Author b)),
      (''BookPages'', BInt (Pages b)),
      (''BookYear'', BInt (Year b)),
      (''BookISBN'', BString (Isbn b))]"

definition put_handler ::
  "storage_env \<Rightarrow> error + BookDTO \<Rightarrow> collection \<Rightarrow> collection \<times> outcome" where
  "put_handler env bound c =
     (case bound of
        Inl e \<Rightarrow> (c, Failed e)
      | Inr bookToUpdate \<Rightarrow>
          (let oid = fst (ObjectIDFromHex (Id bookToUpdate)) in
           case UpdateOne (fault1 env) [(''_id'', BObjectID oid)] (put_update bookToUpdate) c of
             Inl e \<Rightarrow> (c, JSON 500 (JText ''error in updating data''))
           | Inr (n, c') \<Rightarrow> (c', JSON 200 (JBook bookToUpdate))))"

subsection \<open>DELETE /api/books/:id\<close>

text \<open>
  The handler parses the path parameter with \<^verbatim>\<open>ObjectIDFromHex\<close> and uses neither the
  identifier nor the error: both filters are built from the string itself.
  \<^verbatim>\<open>DeleteOne\<close> returns a result and an error. A round trip that fails, and a filter
  that is refused, return no result, and reading \<^verbatim>\<open>result.DeletedCount\<close> then panics.
  The key of the second filter is the path parameter, whatever it is; \<open>ops\<close> is how
  the database reads that filter when the key is not the name of a field.
\<close>

definition DeleteOne_go ::
  "bool \<Rightarrow> reading \<Rightarrow> bdoc \<Rightarrow> collection \<Rightarrow> (nat option \<times> error option) \<times> collection" where
  "DeleteOne_go fault ops f c =
     (case DeleteOne fault ops f c of
        Inl e \<Rightarrow> ((None, Some e), c)
      | Inr (n, c') \<Rightarrow> ((Some n, None), c'))"

definition delete_reply :: "error option \<Rightarrow> outcome" where
  "delete_reply err =
     (if err \<noteq> None then JSON 500 (JText ''error in deleting the book'')
      else JSON 200 (JText ''Book deleted successfully''))"

definition delete_handler ::
  "reading \<Rightarrow> storage_env \<Rightarrow> string \<Rightarrow> collection \<Rightarrow> collection \<times> outcome" where
  "delete_handler ops env ident c =
     (case DeleteOne_go (fault1 env) ops [(''id'', BString ident)] c of
        ((None, err), c1) \<Rightarrow> (c1, Panicked)
      | ((Some n, err), c1) \<Rightarrow>
          if n = 0 then
            (case DeleteOne_go (fault2 env) ops [(ident, BNull)] c1 of
               ((None, err2), c2) \<Rightarrow> (c2, Panicked)
             | ((Some m, err2), c2) \<Rightarrow> (c2, delete_reply err2))
          else (c1, delete_reply err))"

subsection \<open>Startup: \<^verbatim>\<open>prepareData\<close>\<close>

text \<open>
  \<^verbatim>\<open>prepareDatabase\<close> creates the named collection when the database does not list it;
  a collection that was just created is the empty list. \<^verbatim>\<open>prepareData\<close> then probes
  each seed record with the record itself as the filter: no match inserts it, one match
  prints it, more than one halts the process with \<^verbatim>\<open>log.Fatal\<close>; a failed read or
  insert panics.
\<close>

datatype exit = Completed | LogFatal | Panic

definition author_vortex :: string where
  "author_vortex = ''Jos'' @ [CHR 0xC3, CHR 0xA9] @ '' Eustasio Rivera''"

definition author_vortex_post :: string where
  "author_vortex_post = ''Jos'' @ [CHR 0xC3, CHR 0x83, CHR 0xC2, CHR 0xA9] @ '' Eustasio Rivera''"

definition seed_books :: "string \<Rightarrow> BookStore list" where
  "seed_books author =
     [\<lparr>ID = NilObjectID, BookName = ''The Vortex'', BookAuthor = author,
       BookISBN = ''958-30-0804-4'', BookPages = 292, BookYear = 1924\<rparr>,
      \<lparr>ID = NilObjectID, BookName = ''Frankenstein'', BookAuthor = ''Mary Shelley'',
       BookISBN = ''978-3-649-64609-9'', BookPages = 280, BookYear = 1818\<rparr>,
      \<lparr>ID = NilObjectID, BookName = ''The Black Cat'', BookAuthor = ''Edgar Allan Poe'',
       BookISBN = ''978-3-99168-238-7'', BookPages = 280, BookYear = 1843\<rparr>]"

text \<open>The seed literals of the DELETE service and of the frontend; those of the POST service.\<close>

definition startData :: "BookStore list" where
  "startData = seed_books author_vortex"

definition startData_post :: "BookStore list" where
  "startData_post = seed_books author_vortex_post"

text \<open>
  The loop over the seed records; \<open>env i\<close> is what the \<open>i\<close>-th iteration meets: its first
  round trip is the probe, its second the insert.
\<close>

fun prepareData_loop ::
  "(nat \<Rightarrow> storage_env) \<Rightarrow> nat \<Rightarrow> BookStore list \<Rightarrow> collection \<Rightarrow> exit \<times> collection" where
  "prepareData_loop env i [] c = (Completed, c)"
| "prepareData_loop env i (book # rest) c =
     (case Find_All (fault1 (env i)) (marshal_BookStore book) c of
        Inl e \<Rightarrow> (Panic, c)
      | Inr results \<Rightarrow>
          if length results > 1 then (LogFatal, c)
          else if length results = 0 then
            (case InsertOne (fault2 (env i)) (fresh (env i)) (marshal_BookStore book) c of
               Inl e \<Rightarrow> (Panic, c)
             | Inr (r, c') \<Rightarrow> prepareData_loop env (Suc i) rest c')
          else prepareData_loop env (Suc i) rest c)"

definition prepareData :: "(nat \<Rightarrow> storage_env) \<Rightarrow> collection \<Rightarrow> exit \<times> collection" where
  "prepareData env c = prepareData_loop env 0 startData c"

definition prepareData_post :: "(nat \<Rightarrow> storage_env) \<Rightarrow> collection \<Rightarrow> exit \<times> collection" where
  "prepareData_post env c = prepareData_loop env 0 startData_post c"

text \<open>
  Every service runs its own copy of \<^verbatim>\<open>prepareData\<close> at its start, against the one
  shared collection. A sequence of starts is a list of services, each with what its
  start meets; a start that halts leaves the collection as it is at that moment.
\<close>

datatype service = POST_service | DELETE_service | Frontend

definition bootstrap :: "service \<Rightarrow> (nat \<Rightarrow> storage_env) \<Rightarrow> collection \<Rightarrow> exit \<times> collection" where
  "bootstrap sv env c =
     (case sv of
        POST_service \<Rightarrow> prepareData_post env c
      | DELETE_service \<Rightarrow> prepareData env c
      | Frontend \<Rightarrow> prepareData env c)"

definition startData_of :: "service \<Rightarrow> BookStore list" where
  "startData_of sv =
     (case sv of
        POST_service \<Rightarrow> startData_post
      | DELETE_service \<Rightarrow> startData
      | Frontend \<Rightarrow> startData)"

fun restarts :: "(service \<times> (nat \<Rightarrow> storage_env)) list \<Rightarrow> collection \<Rightarrow> collection" where
  "restarts [] c = c"
| "restarts (run # rest) c = restarts rest (snd (bootstrap (fst run) (snd run) c))"

section \<open>Collections of book records\<close>

text \<open>
  The documents this program writes: an insert stores the identifier and the five
  lower-case fields of a \<^verbatim>\<open>BookStore\<close>, in this order; an update adds or overwrites
  capitalised fields behind them. The identifiers of a collection are distinct.
\<close>

datatype kind = KString | KInt | KObjectID | KNull

definition kind_of :: "bval \<Rightarrow> kind" where
  "kind_of v = (case v of BString s \<Rightarrow> KString | BInt n \<Rightarrow> KInt | BObjectID oid \<Rightarrow> KObjectID | BNull \<Rightarrow> KNull)"

definition extra_ok :: "string \<times> bval \<Rightarrow> bool" where
  "extra_ok kv =
     (case snd kv of
        BString s \<Rightarrow> fst kv \<in> set [''BookName'', ''BookAuthor'', ''BookISBN'']
      | BInt n \<Rightarrow> fst kv \<in> set [''BookPages'', ''BookYear'']
      | _ \<Rightarrow> False)"

definition book_doc :: "bdoc \<Rightarrow> bool" where
  "book_doc d \<longleftrightarrow>
     map fst (take 6 d) = field_names \<and>
     map (kind_of \<circ> snd) (take 6 d) = [KObjectID, KString, KString, KString, KInt, KInt] \<and>
     distinct (map fst (drop 6 d)) \<and>
     list_all extra_ok (drop 6 d)"

definition book_coll :: "collection \<Rightarrow> bool" where
  "book_coll c \<longleftrightarrow> list_all book_doc c \<and> distinct (coll_ids c)"

text \<open>The stored document of a record with identifier \<open>oid\<close> and the fields of \<open>b\<close>.\<close>

definition stored_doc :: "ObjectID \<Rightarrow> BookStore \<Rightarrow> bdoc" where
  "stored_doc oid b =
     [(''_id'', BObjectID oid),
      (''bookname'', BString (BookName b)),
      (''bookauthor'', BString (BookAuthor b)),
      (''bookisbn'', BString (BookISBN b)),
      (''bookpages'', BInt (BookPages b)),
      (''bookyear'', BInt (BookYear b))]"

text \<open>
  The record a document stands for: its identifier, and each field as last written,
  by an update if there was one and by the insert otherwise.
\<close>

definition current :: "bdoc \<Rightarrow> string \<Rightarrow> string \<Rightarrow> bval" where
  "current d cname lname =
     (case map_of d cname of
        Some v \<Rightarrow> v
      | None \<Rightarrow> (case map_of d lname of Some v \<Rightarrow> v | None \<Rightarrow> BNull))"

definition str_of :: "bval \<Rightarrow> string" where
  "str_of v = (case v of BString s \<Rightarrow> s | _ \<Rightarrow> [])"

definition int_of :: "bval \<Rightarrow> 64 word" where
  "int_of v = (case v of BInt n \<Rightarrow> n | _ \<Rightarrow> 0)"

definition oid_of :: "bdoc \<Rightarrow> ObjectID" where
  "oid_of d = (case map_of d ''_id'' of Some (BObjectID oid) \<Rightarrow> oid | _ \<Rightarrow> NilObjectID)"

definition record_of :: "bdoc \<Rightarrow> BookStore" where
  "record_of d =
     \<lparr>ID = oid_of d,
      BookName = str_of (current d ''BookName'' ''bookname''),
      BookAuthor = str_of (current d ''BookAuthor'' ''bookauthor''),
      BookISBN = str_of (current d ''BookISBN'' ''bookisbn''),
      BookPages = int_of (current d ''BookPages'' ''bookpages''),
      BookYear = int_of (current d ''BookYear'' ''bookyear'')\<rparr>"

definition response_of :: "bdoc \<Rightarrow> BookDTO" where
  "response_of d =
     \<lparr>Name = BookName (record_of d), Author = BookAuthor (record_of d),
      Pages = BookPages (record_of d), Year = BookYear (record_of d),
      Isbn = BookISBN (record_of d), Id = Hex (oid_of d)\<rparr>"

text \<open>
  The value of a field after the updates in \<open>extra\<close>: the updated value if there is one,
  and \<open>v\<close> otherwise.
\<close>

definition written :: "bdoc \<Rightarrow> string \<Rightarrow> bval \<Rightarrow> bval" where
  "written extra k v = (case map_of extra k of Some w \<Rightarrow> w | None \<Rightarrow> v)"

section \<open>Concrete inputs\<close>

text \<open>
  An environment without faults, and the collection that the first start of the DELETE
  service leaves when the driver generates the identifiers 1, 2 and 3.
\<close>

definition demo_env :: storage_env where
  "demo_env = \<lparr>fault1 = False, fault2 = False, fresh = 4\<rparr>"

definition seeded :: collection where
  "seeded = [stored_doc 1 (startData ! 0), stored_doc 2 (startData ! 1), stored_doc 3 (startData ! 2)]"

text \<open>
  Two filters with an operator key, as the query language of MongoDB reads them:
  \<^verbatim>\<open>$or\<close> takes an array, so \<^verbatim>\<open>{$or: null}\<close> is refused; \<^verbatim>\<open>$expr\<close> takes an
  expression, and null is false, so \<^verbatim>\<open>{$expr: null}\<close> matches no document. The
  examples use no other operator.
\<close>

definition mongo_reading :: reading where
  "mongo_reading f = (if f = [(''$expr'', BNull)] then Some (\<lambda>d. False) else None)"

text \<open>A PUT request with a malformed identifier, and one for the second seed record.\<close>

definition bad_req :: BookDTO where
  "bad_req = \<lparr>Name = ''X'', Author = ''Y'', Pages = 1, Year = 2, Isbn = ''Z'', Id = ''not-an-id''\<rparr>"

definition good_req :: BookDTO where
  "good_req = \<lparr>Name = ''X'', Author = ''Y'', Pages = 1, Year = 2, Isbn = ''Z'',
               Id = ''000000000000000000000002''\<rparr>"

text \<open>A POST request that names only an author of a seed record, and one for a new book.\<close>

definition shelley_req :: PostBookDTO where
  "shelley_req = \<lparr>Name = [], Author = ''Mary Shelley'', Pages = 0, Year = 0, Isbn = []\<rparr>"

definition novel_req :: PostBookDTO where
  "novel_req = \<lparr>Name = ''Dracula'', Author = ''Bram Stoker'', Pages = 418, Year = 1897, Isbn = []\<rparr>"

text \<open>
  A start without faults whose driver generates the identifiers \<open>b\<close>, \<open>b + 1\<close>, \<open>b + 2\<close>.
\<close>

definition boot_env :: "nat \<Rightarrow> nat \<Rightarrow> storage_env" where
  "boot_env b i = \<lparr>fault1 = False, fault2 = False, fresh = of_nat (b + i)\<rparr>"

section \<open>Identifiers and their display strings\<close>

lemma length_hex_nat: "length (hex_nat k n) = k"
  by (induction k arbitrary: n) auto

lemma fromHexChar_hex_digit: "n < 16 \<Longrightarrow> fromHexChar (hex_digit n) = Some n"
  by (auto simp: fromHexChar_def hex_digit_def Let_def)

lemma hex_decode_append:
  "hex_decode (xs @ ys) acc = (case hex_decode xs acc of None \<Rightarrow> None | Some a \<Rightarrow> hex_decode ys a)"
  by (induction xs arbitrary: acc) (auto split: option.splits)

lemma hex_decode_hex_nat: "hex_decode (hex_nat k n) acc = Some (acc * 16 ^ k + n mod 16 ^ k)"
proof (induction k arbitrary: n acc)
  case 0
  then show ?case by simp
next
  case (Suc k)
  have "(n div 16) mod 16 ^ k * 16 + n mod 16 = n mod (16 * 16 ^ k)"
    by (metis (no_types) add.commute mod_mult2_eq mult.commute)
  then show ?case
    by (simp add: hex_decode_append Suc fromHexChar_hex_digit algebra_simps)
qed

lemma ObjectIDFromHex_Hex: "ObjectIDFromHex (Hex oid) = (oid, None)"
proof -
  have "unat oid < 2 ^ 96" using unsigned_less [of oid] by simp
  then have "unat oid mod 16 ^ 24 = unat oid" by simp
  then show ?thesis
    by (simp add: ObjectIDFromHex_def Hex_def length_hex_nat hex_decode_hex_nat del: hex_nat.simps)
qed

lemma Hex_inject: "Hex a = Hex b \<longleftrightarrow> a = b"
  by (metis ObjectIDFromHex_Hex fst_conv)

lemma Hex_nonempty: "Hex a \<noteq> []"
  using length_hex_nat [of 24 "unat a"] by (auto simp: Hex_def simp del: hex_nat.simps)

section \<open>Replies, and filters whose keys are names of fields\<close>

lemma JSON_simps [simp]:
  "JSON 200 v = Reply 200 v"
  "JSON 500 v = Reply 500 v"
  "JSON 304 v = Reply 304 NoBody"
  by (simp_all add: JSON_def bodyAllowedForStatus_def)

lemma read_filter_fields:
  "list_all (\<lambda>kv. field_key (fst kv)) f \<Longrightarrow> read_filter ops f = Some (matches f)"
  by (simp add: read_filter_def)

lemma read_filter_operator:
  "\<not> field_key k \<Longrightarrow> read_filter ops [(k, v)] = ops [(k, v)]"
  by (simp add: read_filter_def)

text \<open>
  The filters with fixed keys: of the seed probe, of the duplicate check of POST, of
  \<^verbatim>\<open>findAllBooks\<close>, of PUT and of the first attempt of DELETE.
\<close>

lemma fixed_filters_are_field_tests:
  "list_all (\<lambda>kv. field_key (fst kv)) (marshal_BookStore b)"
  "list_all (\<lambda>kv. field_key (fst kv)) (objToComapare book)"
  "list_all (\<lambda>kv. field_key (fst kv)) [([], BNull)]"
  "list_all (\<lambda>kv. field_key (fst kv)) [(''_id'', BObjectID oid)]"
  "list_all (\<lambda>kv. field_key (fst kv)) [(''id'', BString ident)]"
  by (simp_all add: field_key_def marshal_BookStore_def objToComapare_def)

lemma read_first_attempt:
  "read_filter ops [(''id'', BString ident)] = Some (matches [(''id'', BString ident)])"
  by (rule read_filter_fields) (rule fixed_filters_are_field_tests)

section \<open>Decoding book documents\<close>

lemma list6:
  "6 \<le> length xs \<Longrightarrow> \<exists>x0 x1 x2 x3 x4 x5 r. xs = x0 # x1 # x2 # x3 # x4 # x5 # r"
  by (auto simp: eval_nat_numeral Suc_le_length_iff)

lemma kind_of_iff:
  "kind_of v = KString \<longleftrightarrow> (\<exists>s. v = BString s)"
  "kind_of v = KInt \<longleftrightarrow> (\<exists>n. v = BInt n)"
  "kind_of v = KObjectID \<longleftrightarrow> (\<exists>oid. v = BObjectID oid)"
  by (cases v; simp add: kind_of_def)+

lemma book_docE:
  assumes "book_doc d"
  obtains oid b extra where
    "d = stored_doc oid b @ extra" "distinct (map fst extra)" "list_all extra_ok extra"
proof -
  from assms have keys: "map fst (take 6 d) = field_names"
    and kinds: "map (kind_of \<circ> snd) (take 6 d) = [KObjectID, KString, KString, KString, KInt, KInt]"
    and ex: "distinct (map fst (drop 6 d))" "list_all extra_ok (drop 6 d)"
    by (simp_all add: book_doc_def)
  from arg_cong [OF keys, of length] have "length (take 6 d) = 6"
    by (simp add: field_names_def)
  then have "6 \<le> length d" by simp
  then obtain x0 x1 x2 x3 x4 x5 r where d: "d = x0 # x1 # x2 # x3 # x4 # x5 # r"
    using list6 by blast
  from keys d have k: "fst x0 = ''_id''" "fst x1 = ''bookname''" "fst x2 = ''bookauthor''"
    "fst x3 = ''bookisbn''" "fst x4 = ''bookpages''" "fst x5 = ''bookyear''"
    by (simp_all add: field_names_def)
  from kinds d obtain oid n a i p y where v: "snd x0 = BObjectID oid" "snd x1 = BString n"
    "snd x2 = BString a" "snd x3 = BString i" "snd x4 = BInt p" "snd x5 = BInt y"
    by (auto simp: kind_of_iff)
  let ?b = "\<lparr>ID = oid, BookName = n, BookAuthor = a, BookISBN = i, BookPages = p, BookYear = y\<rparr>"
  have "d = stored_doc oid ?b @ r"
    using d k v by (simp add: stored_doc_def prod_eq_iff)
  moreover from ex d have "distinct (map fst r)" "list_all extra_ok r" by simp_all
  ultimately show ?thesis using that by blast
qed

lemma book_doc_stored: "distinct (map fst extra) \<Longrightarrow> list_all extra_ok extra \<Longrightarrow> book_doc (stored_doc oid b @ extra)"
  by (simp add: book_doc_def stored_doc_def field_names_def kind_of_def)

lemma struct_field_simps:
  "struct_field ''_id'' = Some ''_id''"
  "struct_field ''bookname'' = Some ''bookname''"
  "struct_field ''bookauthor'' = Some ''bookauthor''"
  "struct_field ''bookisbn'' = Some ''bookisbn''"
  "struct_field ''bookpages'' = Some ''bookpages''"
  "struct_field ''bookyear'' = Some ''bookyear''"
  "struct_field ''BookName'' = Some ''bookname''"
  "struct_field ''BookAuthor'' = Some ''bookauthor''"
  "struct_field ''BookISBN'' = Some ''bookisbn''"
  "struct_field ''BookPages'' = Some ''bookpages''"
  "struct_field ''BookYear'' = Some ''bookyear''"
  by code_simp+

lemma decode_fields_append:
  "decode_fields (xs @ ys) b =
     (case decode_fields xs b of Inl e \<Rightarrow> Inl e | Inr b' \<Rightarrow> decode_fields ys b')"
  by (induction xs arbitrary: b) (auto split: sum.splits)

lemma decode_stored_doc:
  "decode_fields (stored_doc oid b0) b =
     Inr (b\<lparr>ID := oid, BookName := BookName b0, BookAuthor := BookAuthor b0,
            BookISBN := BookISBN b0, BookPages := BookPages b0, BookYear := BookYear b0\<rparr>)"
  by (simp add: stored_doc_def decode_elem_def struct_field_simps)

lemma decode_extra:
  "distinct (map fst extra) \<Longrightarrow> list_all extra_ok extra \<Longrightarrow>
   decode_fields extra b =
     Inr (b\<lparr>BookName := str_of (written extra ''BookName'' (BString (BookName b))),
            BookAuthor := str_of (written extra ''BookAuthor'' (BString (BookAuthor b))),
            BookISBN := str_of (written extra ''BookISBN'' (BString (BookISBN b))),
            BookPages := int_of (written extra ''BookPages'' (BInt (BookPages b))),
            BookYear := int_of (written extra ''BookYear'' (BInt (BookYear b)))\<rparr>)"
proof (induction extra arbitrary: b)
  case Nil
  then show ?case by (simp add: written_def str_of_def int_of_def)
next
  case (Cons kv extra)
  obtain k v where kv: "kv = (k, v)" by (cases kv)
  from Cons.prems kv have nk: "map_of extra k = None" and d: "distinct (map fst extra)"
    and ok: "list_all extra_ok extra" and okv: "extra_ok (k, v)"
    by (auto simp: map_of_eq_None_iff)
  note IH = Cons.IH [OF d ok]
  from okv consider
      s where "k = ''BookName''" "v = BString s"
    | s where "k = ''BookAuthor''" "v = BString s"
    | s where "k = ''BookISBN''" "v = BString s"
    | n where "k = ''BookPages''" "v = BInt n"
    | n where "k = ''BookYear''" "v = BInt n"
    by (auto simp: extra_ok_def split: bval.splits)
  then show ?case
  proof cases
    case 1
    with nk show ?thesis
      by (simp add: kv decode_elem_def struct_field_simps IH written_def str_of_def int_of_def)
  next
    case 2
    with nk show ?thesis
      by (simp add: kv decode_elem_def struct_field_simps IH written_def str_of_def int_of_def)
  next
    case 3
    with nk show ?thesis
      by (simp add: kv decode_elem_def struct_field_simps IH written_def str_of_def int_of_def)
  next
    case 4
    with nk show ?thesis
      by (simp add: kv decode_elem_def struct_field_simps IH written_def str_of_def int_of_def)
  next
    case 5
    with nk show ?thesis
      by (simp add: kv decode_elem_def struct_field_simps IH written_def str_of_def int_of_def)
  qed
qed

lemma extra_keys:
  "list_all extra_ok extra \<Longrightarrow> k \<notin> set [''BookName'', ''BookAuthor'', ''BookISBN'', ''BookPages'', ''BookYear''] \<Longrightarrow> map_of extra k = None"
  by (induction extra) (auto simp: extra_ok_def split: bval.splits)

lemma extra_values:
  "list_all extra_ok extra \<Longrightarrow> map_of extra k = Some v \<Longrightarrow>
     (k \<in> set [''BookName'', ''BookAuthor'', ''BookISBN''] \<and> (\<exists>s. v = BString s)) \<or>
     (k \<in> set [''BookPages'', ''BookYear''] \<and> (\<exists>n. v = BInt n))"
  by (induction extra) (auto simp: extra_ok_def split: bval.splits if_splits)

lemma map_of_stored_lower:
  "map_of (stored_doc oid b @ extra) ''_id'' = Some (BObjectID oid)"
  "map_of (stored_doc oid b @ extra) ''bookname'' = Some (BString (BookName b))"
  "map_of (stored_doc oid b @ extra) ''bookauthor'' = Some (BString (BookAuthor b))"
  "map_of (stored_doc oid b @ extra) ''bookisbn'' = Some (BString (BookISBN b))"
  "map_of (stored_doc oid b @ extra) ''bookpages'' = Some (BInt (BookPages b))"
  "map_of (stored_doc oid b @ extra) ''bookyear'' = Some (BInt (BookYear b))"
  by (simp_all add: stored_doc_def)

lemma map_of_stored_other:
  "k \<notin> set field_names \<Longrightarrow> map_of (stored_doc oid b @ extra) k = map_of extra k"
  by (simp add: stored_doc_def field_names_def)

lemma record_of_stored:
  "record_of (stored_doc oid b @ extra) =
     \<lparr>ID = oid,
      BookName = str_of (written extra ''BookName'' (BString (BookName b))),
      BookAuthor = str_of (written extra ''BookAuthor'' (BString (BookAuthor b))),
      BookISBN = str_of (written extra ''BookISBN'' (BString (BookISBN b))),
      BookPages = int_of (written extra ''BookPages'' (BInt (BookPages b))),
      BookYear = int_of (written extra ''BookYear'' (BInt (BookYear b)))\<rparr>"
  by (simp add: record_of_def oid_of_def current_def written_def map_of_stored_lower
      map_of_stored_other field_names_def del: map_of_append cong: option.case_cong)

lemma decode_book_doc:
  assumes "book_doc d"
  shows "decode_BookStore d = Inr (record_of d)"
proof -
  from assms obtain oid b extra where d: "d = stored_doc oid b @ extra"
    and ex: "distinct (map fst extra)" "list_all extra_ok extra"
    by (rule book_docE)
  show ?thesis
    unfolding d record_of_stored decode_BookStore_def decode_fields_append decode_stored_doc
    by (simp add: decode_extra [OF ex] zero_BookStore_def)
qed

lemma decode_all_book_docs:
  "list_all book_doc c \<Longrightarrow> decode_all c = Inr (map record_of c)"
  by (induction c) (simp_all add: decode_book_doc)

lemma book_doc_no_key:
  assumes "book_doc d" and "k \<notin> set field_names"
    and "k \<notin> set [''BookName'', ''BookAuthor'', ''BookISBN'', ''BookPages'', ''BookYear'']"
  shows "map_of d k = None"
proof -
  from assms(1) obtain oid b extra where d: "d = stored_doc oid b @ extra"
    and ex: "list_all extra_ok extra"
    by (rule book_docE)
  show ?thesis
    unfolding d using assms(2,3) extra_keys [OF ex, of k]
    by (simp add: map_of_stored_other del: map_of_append)
qed

lemma match_all_filter:
  "list_all book_doc c \<Longrightarrow> filter (matches [([], BNull)]) c = c"
  by (induction c)
     (simp_all add: matches_def field_matches_def book_doc_no_key field_names_def)

section \<open>GET /api/books\<close>

lemma append_maps_eq: "append_maps results ret = ret @ map book_map results"
  by (induction results arbitrary: ret) simp_all

lemma dto_of_book_map:
  "dto_of_map (book_map r) =
     Some \<lparr>Name = BookName r, Author = BookAuthor r, Pages = BookPages r, Year = BookYear r,
           Isbn = BookISBN r, Id = Hex (ID r)\<rparr>"
  by (simp add: dto_of_map_def book_map_def as_string_def as_int_def)

lemma append_dtos_eq:
  "append_dtos (map (book_map \<circ> record_of) c) payload = Some (payload @ map response_of c)"
  by (induction c arbitrary: payload)
     (simp_all add: dto_of_book_map response_of_def record_of_def)

lemma get_handler_book_docs:
  assumes "list_all book_doc c" and "\<not> fault1 env"
  shows "get_handler env c = (c, Reply 200 (JBooks (map response_of c)))"
  using assms append_dtos_eq [of c "[]"]
  by (simp add: get_handler_def findAllBooks_def Find_All_def match_all_filter
      decode_all_book_docs append_maps_eq)

lemma response_of_stored_doc:
  "response_of (stored_doc oid b) =
     \<lparr>Name = BookName b, Author = BookAuthor b, Pages = BookPages b, Year = BookYear b,
      Isbn = BookISBN b, Id = Hex oid\<rparr>"
  using record_of_stored [of oid b "[]"]
  by (simp add: response_of_def oid_of_def written_def str_of_def int_of_def stored_doc_def)

text \<open>
  Claim C9. On every collection of book records, when the read succeeds, the GET handler
  replies 200 with one object per stored document, in storage order: the object of a
  document carries the display string of its identifier and its name, author, ISBN,
  page count and year. The collection is returned as it was.
\<close>

theorem get_handler_lists_all:
  assumes "list_all book_doc c" and "\<not> fault1 env"
  shows "get_handler env c = (c, Reply 200 (JBooks (map response_of c))) \<and>
         length (map response_of c) = length c \<and>
         (\<forall>i < length c. Id (map response_of c ! i) = Hex (oid_of (c ! i)) \<and>
            Name (map response_of c ! i) = BookName (record_of (c ! i)) \<and>
            Author (map response_of c ! i) = BookAuthor (record_of (c ! i)) \<and>
            Isbn (map response_of c ! i) = BookISBN (record_of (c ! i)) \<and>
            Pages (map response_of c ! i) = BookPages (record_of (c ! i)) \<and>
            Year (map response_of c ! i) = BookYear (record_of (c ! i)))"
  using get_handler_book_docs [OF assms] by (simp add: response_of_def)

theorem get_handler_lists_all_witness:
  "list_all book_doc seeded \<and> \<not> fault1 demo_env \<and>
   get_handler demo_env seeded = (seeded, Reply 200 (JBooks (map response_of seeded))) \<and>
   Name (map response_of seeded ! 0) = ''The Vortex'' \<and>
   Year (map response_of seeded ! 0) = 1924 \<and>
   Id (map response_of seeded ! 0) = ''000000000000000000000001''"
proof -
  have h1: "list_all book_doc seeded" by code_simp
  have h2: "\<not> fault1 demo_env" by (simp add: demo_env_def)
  have h3: "Name (map response_of seeded ! 0) = ''The Vortex''"
    "Year (map response_of seeded ! 0) = 1924"
    "Id (map response_of seeded ! 0) = ''000000000000000000000001''"
    by code_simp+
  from get_handler_lists_all [OF h1 h2] h1 h2 h3 show ?thesis by simp
qed

section \<open>DELETE /api/books/:id\<close>

lemma delete_first_none: "\<not> list_ex P xs \<Longrightarrow> delete_first P xs = xs"
  by (induction xs) auto

lemma update_first_none: "\<not> list_ex P xs \<Longrightarrow> update_first P g xs = xs"
  by (induction xs) auto

lemma book_doc_values:
  assumes "book_doc d" and "map_of d k = Some v"
  shows "v \<noteq> BNull"
proof -
  from assms(1) obtain oid b extra where d: "d = stored_doc oid b @ extra"
    and ex: "list_all extra_ok extra"
    by (rule book_docE)
  show ?thesis
  proof (cases "k \<in> set field_names")
    case True
    with assms(2) show ?thesis
      unfolding d by (auto simp: field_names_def map_of_stored_lower simp del: map_of_append)
  next
    case False
    with assms(2) have "map_of extra k = Some v"
      unfolding d by (simp add: map_of_stored_other del: map_of_append)
    from extra_values [OF ex this] show ?thesis by auto
  qed
qed

lemma no_id_field: "book_doc d \<Longrightarrow> \<not> matches [(''id'', BString ident)] d"
  by (simp add: matches_def field_matches_def book_doc_no_key field_names_def)

lemma first_delete_nothing:
  "list_all book_doc c \<Longrightarrow> DeleteOne False ops [(''id'', BString ident)] c = Inr (0, c)"
proof -
  assume "list_all book_doc c"
  then have "\<not> list_ex (matches [(''id'', BString ident)]) c"
    by (induction c) (simp_all add: no_id_field)
  then show ?thesis
    by (simp add: DeleteOne_def read_first_attempt delete_first_none)
qed

lemma null_filter_matches:
  "book_doc d \<Longrightarrow> matches [(ident, BNull)] d \<longleftrightarrow> map_of d ident = None"
  using book_doc_values [of d ident]
  by (auto simp: matches_def field_matches_def split: option.splits)

lemma delete_first_cong:
  "(\<And>x. x \<in> set xs \<Longrightarrow> P x = Q x) \<Longrightarrow> delete_first P xs = delete_first Q xs"
  by (induction xs) auto

lemma delete_handler_book_docs:
  assumes "list_all book_doc c" and "\<not> fault1 env" and "\<not> fault2 env" and "field_key ident"
  shows "delete_handler ops env ident c =
           (delete_first (\<lambda>d. map_of d ident = None) c,
            Reply 200 (JText ''Book deleted successfully''))"
proof -
  have "delete_first (matches [(ident, BNull)]) c = delete_first (\<lambda>d. map_of d ident = None) c"
    using assms(1) by (intro delete_first_cong) (simp add: null_filter_matches list_all_iff)
  moreover have "read_filter ops [(ident, BNull)] = Some (matches [(ident, BNull)])"
    using assms(4) by (simp add: read_filter_fields)
  ultimately show ?thesis
    using assms(2,3) first_delete_nothing [OF assms(1), of ops ident]
    by (simp add: delete_handler_def DeleteOne_go_def delete_reply_def DeleteOne_def)
qed

text \<open>
  An identifier that is not read as the name of a field: when the database refuses the
  filter of the fallback the handler panics, and otherwise it removes the first record
  that passes the test the filter stands for. Nothing is removed in the first case.
\<close>

lemma delete_handler_refused:
  assumes "list_all book_doc c" and "\<not> fault1 env" and "\<not> field_key ident"
    and "ops [(ident, BNull)] = None"
  shows "delete_handler ops env ident c = (c, Panicked)"
  using assms(2-4) first_delete_nothing [OF assms(1), of ops ident]
  by (simp add: delete_handler_def DeleteOne_go_def DeleteOne_def read_filter_operator)

lemma delete_handler_operator:
  assumes "list_all book_doc c" and "\<not> fault1 env" and "\<not> fault2 env" and "\<not> field_key ident"
    and "ops [(ident, BNull)] = Some P"
  shows "delete_handler ops env ident c =
           (delete_first P c, Reply 200 (JText ''Book deleted successfully''))"
  using assms(2-5) first_delete_nothing [OF assms(1), of ops ident]
  by (simp add: delete_handler_def DeleteOne_go_def DeleteOne_def delete_reply_def
      read_filter_operator)

text \<open>
  Claim C2, as stated for every identifier string that names no stored field, fails. The
  identifiers \<^verbatim>\<open>$expr\<close> and \<^verbatim>\<open>$or\<close> name no field of a stored document. With the
  first the fallback removes nothing and the handler replies 200; with the second the
  filter is refused, the handler panics and nothing is removed.
\<close>

theorem delete_operator_identifier:
  "list_all (\<lambda>d. map_of d ''$expr'' = None) seeded \<and> seeded \<noteq> [] \<and>
   delete_handler mongo_reading demo_env ''$expr'' seeded =
     (seeded, Reply 200 (JText ''Book deleted successfully'')) \<and>
   list_all (\<lambda>d. map_of d ''$or'' = None) seeded \<and>
   delete_handler mongo_reading demo_env ''$or'' seeded = (seeded, Panicked)"
  by code_simp

text \<open>
  Claim C2, amended. On a collection of book records, for an identifier string that is
  read as the name of a field (it does not begin with \<^verbatim>\<open>$\<close> and holds no zero byte)
  and is not the name of a field of any stored document, and when both round trips
  succeed: the first delete attempt, on a field literally named \<^verbatim>\<open>id\<close>, removes no
  document; and when the collection is not empty the fallback, whose filter gives the
  identifier as a field name without a value, removes exactly one document, the first in
  storage order, whatever the primary keys of the documents are; the handler replies 200.
\<close>

theorem delete_fallback_removes_first:
  assumes "list_all book_doc c" and "\<not> fault1 env" and "\<not> fault2 env"
    and "field_key ident" and "\<forall>d \<in> set c. ident \<notin> fst ` set d"
  shows "DeleteOne (fault1 env) ops [(''id'', BString ident)] c = Inr (0, c) \<and>
         (c \<noteq> [] \<longrightarrow>
            DeleteOne (fault2 env) ops [(ident, BNull)] c = Inr (1, tl c) \<and>
            delete_handler ops env ident c =
              (tl c, Reply 200 (JText ''Book deleted successfully'')))"
proof (intro conjI impI)
  show "DeleteOne (fault1 env) ops [(''id'', BString ident)] c = Inr (0, c)"
    using assms(1,2) by (simp add: first_delete_nothing)
next
  assume "c \<noteq> []"
  then obtain d ds where c: "c = d # ds" by (cases c) auto
  with assms(5) have "map_of d ident = None" by (simp add: map_of_eq_None_iff)
  moreover from c assms(1) have "book_doc d" by simp
  ultimately have m: "matches [(ident, BNull)] d" by (simp add: null_filter_matches)
  with c assms(3,4) show "DeleteOne (fault2 env) ops [(ident, BNull)] c = Inr (1, tl c)"
    by (simp add: DeleteOne_def read_filter_fields)
  from c \<open>map_of d ident = None\<close> show
    "delete_handler ops env ident c = (tl c, Reply 200 (JText ''Book deleted successfully''))"
    using delete_handler_book_docs [OF assms(1-4), of ops] by simp
qed

text \<open>
  The identifier is the display string of the third record's key; the first record goes.
\<close>

theorem delete_fallback_removes_first_witness:
  "list_all book_doc seeded \<and> \<not> fault1 demo_env \<and> \<not> fault2 demo_env \<and>
   field_key (Hex 3) \<and>
   list_all (\<lambda>d. map_of d (Hex 3) = None) seeded \<and> seeded \<noteq> [] \<and>
   oid_of (seeded ! 2) = 3 \<and>
   DeleteOne (fault1 demo_env) mongo_reading [(''id'', BString (Hex 3))] seeded = Inr (0, seeded) \<and>
   delete_handler mongo_reading demo_env (Hex 3) seeded =
     (tl seeded, Reply 200 (JText ''Book deleted successfully''))"
proof -
  have h1: "list_all book_doc seeded" by code_simp
  have h2: "\<not> fault1 demo_env" "\<not> fault2 demo_env" by (simp_all add: demo_env_def)
  have h3: "\<forall>d \<in> set seeded. Hex 3 \<notin> fst ` set d" by code_simp
  have h4: "seeded \<noteq> []" by (simp add: seeded_def)
  have h5: "oid_of (seeded ! 2) = 3" by code_simp
  have h6: "list_all (\<lambda>d. map_of d (Hex 3) = None) seeded" by code_simp
  have h7: "field_key (Hex 3)" by code_simp
  from delete_fallback_removes_first [OF h1 h2 h7 h3, of mongo_reading] h1 h2 h4 h5 h6 h7
  show ?thesis by simp
qed

text \<open>
  Claim C1, as stated, fails: the handler may remove the record whose primary key is
  the identifier. Here the identifier is the display string of the key of the first
  seed record; that record is in the collection before the request and not after it.
\<close>

theorem delete_removes_addressed_record:
  "oid_of (stored_doc 1 (startData ! 0)) = fst (ObjectIDFromHex (Hex 1)) \<and>
   stored_doc 1 (startData ! 0) \<in> set seeded \<and>
   stored_doc 1 (startData ! 0) \<notin> set (fst (delete_handler mongo_reading demo_env (Hex 1) seeded)) \<and>
   snd (delete_handler mongo_reading demo_env (Hex 1) seeded) =
     Reply 200 (JText ''Book deleted successfully'')"
  by code_simp

text \<open>
  Claim C1, amended. On every collection of book records and for every identifier
  string that is read as the name of a field (it does not begin with \<^verbatim>\<open>$\<close> and holds
  no zero byte), when no storage error occurs, the DELETE handler replies 200 and
  removes at most one record: the first in storage order that has no field named by the
  identifier, and none if every record has such a field. The primary keys play no part,
  so the record whose key is the identifier is removed exactly when it is that first
  record.
\<close>

theorem delete_handler_by_absence:
  assumes "list_all book_doc c" and "\<not> fault1 env" and "\<not> fault2 env" and "field_key ident"
  shows "snd (delete_handler ops env ident c) = Reply 200 (JText ''Book deleted successfully'') \<and>
         fst (delete_handler ops env ident c) = delete_first (\<lambda>d. map_of d ident = None) c"
  by (simp add: delete_handler_book_docs [OF assms])

text \<open>
  With the display string of the second record's key the first record is removed, the
  second stays; with the name of a field that every record has, nothing is removed.
\<close>

theorem delete_handler_by_absence_witness:
  "list_all book_doc seeded \<and> \<not> fault1 demo_env \<and> \<not> fault2 demo_env \<and>
   field_key (Hex 2) \<and> oid_of (seeded ! 1) = 2 \<and>
   snd (delete_handler mongo_reading demo_env (Hex 2) seeded) =
     Reply 200 (JText ''Book deleted successfully'') \<and>
   fst (delete_handler mongo_reading demo_env (Hex 2) seeded) = [seeded ! 1, seeded ! 2] \<and>
   field_key ''bookname'' \<and>
   snd (delete_handler mongo_reading demo_env ''bookname'' seeded) =
     Reply 200 (JText ''Book deleted successfully'') \<and>
   fst (delete_handler mongo_reading demo_env ''bookname'' seeded) = seeded"
proof -
  have h1: "list_all book_doc seeded" by code_simp
  have h2: "\<not> fault1 demo_env" "\<not> fault2 demo_env" by (simp_all add: demo_env_def)
  have k1: "field_key (Hex 2)" by code_simp
  have k2: "field_key ''bookname''" by code_simp
  have o: "oid_of (seeded ! 1) = 2" by code_simp
  have r1: "delete_first (\<lambda>d. map_of d (Hex 2) = None) seeded = [seeded ! 1, seeded ! 2]"
    by code_simp
  have r2: "delete_first (\<lambda>d. map_of d ''bookname'' = None) seeded = seeded" by code_simp
  from delete_handler_by_absence [OF h1 h2 k1, of mongo_reading]
    delete_handler_by_absence [OF h1 h2 k2, of mongo_reading] h1 h2 k1 k2 o r1 r2
  show ?thesis by simp
qed

section \<open>PUT /api/books\<close>

lemma coll_ids_iff:
  "v \<in> set (coll_ids c) \<longleftrightarrow> (\<exists>d \<in> set c. map_of d ''_id'' = Some v)"
  by (induction c) (auto simp: coll_ids_def split: option.splits)

lemma matches_id:
  "matches [(''_id'', BObjectID oid)] d \<longleftrightarrow> map_of d ''_id'' = Some (BObjectID oid)"
  by (auto simp: matches_def field_matches_def split: option.splits)

lemma no_match_without_id:
  "BObjectID oid \<notin> set (coll_ids c) \<Longrightarrow> \<not> list_ex (matches [(''_id'', BObjectID oid)]) c"
  by (auto simp: coll_ids_iff matches_id list_ex_iff)

text \<open>
  Claim C8. For a PUT request whose identifier does not parse, on a collection in which
  no document has the zero identifier as its key, and when the round trip succeeds: the
  parse error is dropped and the key is the zero identifier, the update matches no
  document and leaves the collection as it was, and the handler still replies 200 with the
  submitted payload.
\<close>

theorem put_handler_malformed_id:
  assumes "snd (ObjectIDFromHex (Id req)) \<noteq> None" and "\<not> fault1 env"
    and "BObjectID NilObjectID \<notin> set (coll_ids c)"
  shows "fst (ObjectIDFromHex (Id req)) = NilObjectID \<and>
         UpdateOne (fault1 env) [(''_id'', BObjectID NilObjectID)] (put_update req) c = Inr (0, c) \<and>
         put_handler env (Inr req) c = (c, Reply 200 (JBook req))"
proof -
  from assms(1) have nil: "fst (ObjectIDFromHex (Id req)) = NilObjectID"
    by (auto simp: ObjectIDFromHex_def split: if_splits option.splits)
  from assms(3) have "\<not> list_ex (matches [(''_id'', BObjectID NilObjectID)]) c"
    by (rule no_match_without_id)
  then have upd: "UpdateOne (fault1 env) [(''_id'', BObjectID NilObjectID)] (put_update req) c = Inr (0, c)"
    using assms(2) by (simp add: UpdateOne_def update_first_none)
  from nil upd show ?thesis by (simp add: put_handler_def)
qed

theorem put_handler_malformed_id_witness:
  "snd (ObjectIDFromHex (Id bad_req)) \<noteq> None \<and> \<not> fault1 demo_env \<and>
   BObjectID NilObjectID \<notin> set (coll_ids seeded) \<and>
   put_handler demo_env (Inr bad_req) seeded = (seeded, Reply 200 (JBook bad_req))"
proof -
  have h1: "snd (ObjectIDFromHex (Id bad_req)) \<noteq> None" by code_simp
  have h2: "\<not> fault1 demo_env" by (simp add: demo_env_def)
  have h3: "BObjectID NilObjectID \<notin> set (coll_ids seeded)" by code_simp
  from put_handler_malformed_id [OF h1 h2 h3] h1 h2 h3 show ?thesis by simp
qed

lemma update_behind:
  "k \<notin> fst ` set xs \<Longrightarrow> AList.update k v (xs @ ys) = xs @ AList.update k v ys"
  by (induction xs) auto

lemma update_behind_stored:
  "k \<notin> set field_names \<Longrightarrow>
   AList.update k v (stored_doc oid b @ extra) = stored_doc oid b @ AList.update k v extra"
  by (rule update_behind) (simp add: stored_doc_def field_names_def)

lemma set_fields_behind_stored:
  "set_fields (put_update req) (stored_doc oid b @ extra) =
     stored_doc oid b @ set_fields (put_update req) extra"
  by (simp add: put_update_def update_behind_stored field_names_def)

lemma extra_ok_update:
  "list_all extra_ok al \<Longrightarrow> extra_ok (k, v) \<Longrightarrow> list_all extra_ok (AList.update k v al)"
  by (induction al) auto

lemma put_update_extra:
  assumes "distinct (map fst extra)" and "list_all extra_ok extra"
  shows "distinct (map fst (set_fields (put_update req) extra))"
    and "list_all extra_ok (set_fields (put_update req) extra)"
    and "map_of (set_fields (put_update req) extra) ''BookName'' = Some (BString (Name req))"
    and "map_of (set_fields (put_update req) extra) ''BookAuthor'' = Some (BString (Author req))"
    and "map_of (set_fields (put_update req) extra) ''BookISBN'' = Some (BString (Isbn req))"
    and "map_of (set_fields (put_update req) extra) ''BookPages'' = Some (BInt (Pages req))"
    and "map_of (set_fields (put_update req) extra) ''BookYear'' = Some (BInt (Year req))"
  using assms
  by (simp_all add: put_update_def distinct_update extra_ok_update extra_ok_def update_conv')

lemma set_fields_book_doc:
  assumes "book_doc d"
  shows "book_doc (set_fields (put_update req) d)"
    and "response_of (set_fields (put_update req) d) =
           \<lparr>Name = Name req, Author = Author req, Pages = Pages req, Year = Year req,
            Isbn = Isbn req, Id = Hex (oid_of d)\<rparr>"
    and "map_of (set_fields (put_update req) d) ''_id'' = map_of d ''_id''"
proof -
  from assms obtain oid b extra where d: "d = stored_doc oid b @ extra"
    and ex: "distinct (map fst extra)" "list_all extra_ok extra"
    by (rule book_docE)
  note new = put_update_extra [OF ex, of req]
  show "book_doc (set_fields (put_update req) d)"
    unfolding d set_fields_behind_stored using new(1,2) by (rule book_doc_stored)
  have o: "oid_of d = oid"
    unfolding d by (simp add: oid_of_def map_of_stored_lower del: map_of_append)
  have o': "oid_of (stored_doc oid b @ set_fields (put_update req) extra) = oid"
    by (simp add: oid_of_def map_of_stored_lower del: map_of_append)
  show "response_of (set_fields (put_update req) d) =
           \<lparr>Name = Name req, Author = Author req, Pages = Pages req, Year = Year req,
            Isbn = Isbn req, Id = Hex (oid_of d)\<rparr>"
    unfolding o unfolding d set_fields_behind_stored response_of_def record_of_stored o'
    by (simp add: written_def new str_of_def int_of_def)
  show "map_of (set_fields (put_update req) d) ''_id'' = map_of d ''_id''"
    unfolding d set_fields_behind_stored
    by (simp add: map_of_stored_lower del: map_of_append)
qed

lemma book_doc_id: "book_doc d \<Longrightarrow> map_of d ''_id'' = Some (BObjectID (oid_of d))"
  by (erule book_docE) (simp add: oid_of_def map_of_stored_lower del: map_of_append)

lemma coll_ids_book_docs: "list_all book_doc c \<Longrightarrow> coll_ids c = map (BObjectID \<circ> oid_of) c"
  by (induction c) (simp_all add: coll_ids_def book_doc_id)

lemma update_first_book_docs:
  "list_all book_doc c \<Longrightarrow>
   list_all book_doc (update_first (matches [(''_id'', BObjectID oid)]) (set_fields (put_update req)) c)"
  by (induction c) (simp_all add: set_fields_book_doc)

lemma update_first_ids:
  "list_all book_doc c \<Longrightarrow>
   coll_ids (update_first (matches [(''_id'', BObjectID oid)]) (set_fields (put_update req)) c) = coll_ids c"
  by (induction c) (auto simp: coll_ids_def set_fields_book_doc split: option.splits)

lemma update_first_responses:
  "list_all book_doc c \<Longrightarrow> distinct (coll_ids c) \<Longrightarrow>
   map response_of (update_first (matches [(''_id'', BObjectID oid)]) (set_fields (put_update req)) c) =
   map (\<lambda>d. if oid_of d = oid
             then \<lparr>Name = Name req, Author = Author req, Pages = Pages req, Year = Year req,
                   Isbn = Isbn req, Id = Hex oid\<rparr>
             else response_of d) c"
proof (induction c)
  case Nil
  then show ?case by simp
next
  case (Cons d ds)
  then have bd: "book_doc d" and bds: "list_all book_doc ds"
    and nd: "BObjectID (oid_of d) \<notin> set (coll_ids ds)" and dd: "distinct (coll_ids ds)"
    by (simp_all add: coll_ids_def book_doc_id)
  show ?case
  proof (cases "oid_of d = oid")
    case True
    have ids: "coll_ids ds = map (BObjectID \<circ> oid_of) ds"
      using bds by (rule coll_ids_book_docs)
    have "\<forall>x \<in> set ds. oid_of x \<noteq> oid"
    proof
      fix x assume "x \<in> set ds"
      then have "BObjectID (oid_of x) \<in> set (coll_ids ds)"
        unfolding ids by simp
      with nd True show "oid_of x \<noteq> oid" by auto
    qed
    then have "map (\<lambda>d. if oid_of d = oid
             then \<lparr>Name = Name req, Author = Author req, Pages = Pages req, Year = Year req,
                   Isbn = Isbn req, Id = Hex oid\<rparr>
             else response_of d) ds = map response_of ds"
      by (intro map_cong) auto
    with True bd show ?thesis
      by (simp add: matches_id book_doc_id set_fields_book_doc)
  next
    case False
    with bd Cons.IH [OF bds dd] show ?thesis
      by (simp add: matches_id book_doc_id)
  qed
qed

lemma put_handler_valid_id:
  assumes "ObjectIDFromHex (Id req) = (oid, None)" and "\<not> fault1 env"
  shows "put_handler env (Inr req) c =
           (update_first (matches [(''_id'', BObjectID oid)]) (set_fields (put_update req)) c,
            Reply 200 (JBook req))"
  using assms by (simp add: put_handler_def UpdateOne_def)

text \<open>
  Claim C3. On a collection of book records with distinct identifiers that holds a record
  with identifier \<open>oid\<close>, for a PUT request whose identifier parses to \<open>oid\<close>, and
  when the round trips succeed: the handler replies 200 with the payload, and a GET after
  it lists what a GET before it lists, except that the entry with the display string of
  \<open>oid\<close> carries the new field values; that entry is in the list.
\<close>

theorem put_then_get:
  assumes "book_coll c" and "BObjectID oid \<in> set (coll_ids c)"
    and "ObjectIDFromHex (Id req) = (oid, None)"
    and "\<not> fault1 env" and "\<not> fault1 env'"
  shows "get_handler env' c = (c, Reply 200 (JBooks (map response_of c))) \<and>
         snd (put_handler env (Inr req) c) = Reply 200 (JBook req) \<and>
         get_handler env' (fst (put_handler env (Inr req) c)) =
           (fst (put_handler env (Inr req) c),
            Reply 200 (JBooks (map (\<lambda>b. if Id b = Hex oid then req\<lparr>Id := Hex oid\<rparr> else b)
                                   (map response_of c)))) \<and>
         req\<lparr>Id := Hex oid\<rparr> \<in>
           set (map (\<lambda>b. if Id b = Hex oid then req\<lparr>Id := Hex oid\<rparr> else b) (map response_of c))"
proof -
  let ?c' = "update_first (matches [(''_id'', BObjectID oid)]) (set_fields (put_update req)) c"
  let ?new = "\<lparr>Name = Name req, Author = Author req, Pages = Pages req, Year = Year req,
               Isbn = Isbn req, Id = Hex oid\<rparr>"
  from assms(1) have docs: "list_all book_doc c" and dist: "distinct (coll_ids c)"
    by (simp_all add: book_coll_def)
  have put: "put_handler env (Inr req) c = (?c', Reply 200 (JBook req))"
    using assms(3,4) by (rule put_handler_valid_id)
  have new: "req\<lparr>Id := Hex oid\<rparr> = ?new" by simp
  have "map response_of ?c' = map (\<lambda>d. if oid_of d = oid then ?new else response_of d) c"
    using docs dist by (rule update_first_responses)
  also have "\<dots> = map (\<lambda>b. if Id b = Hex oid then req\<lparr>Id := Hex oid\<rparr> else b) (map response_of c)"
    unfolding new by (simp add: response_of_def Hex_inject)
  finally have resp: "map response_of ?c' =
      map (\<lambda>b. if Id b = Hex oid then req\<lparr>Id := Hex oid\<rparr> else b) (map response_of c)" .
  have get': "get_handler env' ?c' = (?c', Reply 200 (JBooks (map response_of ?c')))"
    using update_first_book_docs [OF docs] assms(5) by (rule get_handler_book_docs)
  have get: "get_handler env' c = (c, Reply 200 (JBooks (map response_of c)))"
    using docs assms(5) by (rule get_handler_book_docs)
  from assms(2) obtain d where d: "d \<in> set c" "oid_of d = oid"
    using docs by (auto simp: coll_ids_book_docs)
  then have "Id (response_of d) = Hex oid" by (simp add: response_of_def)
  with d(1) have mem: "req\<lparr>Id := Hex oid\<rparr> \<in>
           set (map (\<lambda>b. if Id b = Hex oid then req\<lparr>Id := Hex oid\<rparr> else b) (map response_of c))"
    by (force simp: image_iff)
  from get put get' resp mem show ?thesis by simp
qed

theorem put_then_get_witness:
  "book_coll seeded \<and> BObjectID 2 \<in> set (coll_ids seeded) \<and>
   ObjectIDFromHex (Id good_req) = (2, None) \<and> \<not> fault1 demo_env \<and>
   snd (get_handler demo_env (fst (put_handler demo_env (Inr good_req) seeded))) =
     Reply 200 (JBooks [response_of (seeded ! 0), good_req, response_of (seeded ! 2)])"
proof -
  have h1: "book_coll seeded" by code_simp
  have h2: "BObjectID 2 \<in> set (coll_ids seeded)" by code_simp
  have h3: "ObjectIDFromHex (Id good_req) = (2, None)" by code_simp
  have h4: "\<not> fault1 demo_env" by (simp add: demo_env_def)
  have h5: "map (\<lambda>b. if Id b = Hex 2 then good_req\<lparr>Id := Hex 2\<rparr> else b) (map response_of seeded)
              = [response_of (seeded ! 0), good_req, response_of (seeded ! 2)]"
    by code_simp
  from put_then_get [OF h1 h2 h3 h4 h4] h1 h2 h3 h4 h5 show ?thesis by simp
qed

section \<open>POST /api/books\<close>

lemma InsertOne_appends:
  "InsertOne fault new d c = Inr (k, c') \<Longrightarrow> \<exists>d'. c' = c @ [d']"
  by (auto simp: InsertOne_def Let_def split: if_splits)

text \<open>
  Claim C10. Whatever the request and the collection, and on every outcome of the
  POST handler (bind failure, perceived duplicate, insert error, successful insert),
  the collection afterwards is the collection before, or the collection before with
  one document added at its end: no existing record is modified or removed and at most
  one record is added.
\<close>

theorem post_handler_frame:
  "fst (post_handler env bound c) = c \<or> (\<exists>d. fst (post_handler env bound c) = c @ [d])"
proof (cases bound)
  case (Inl e)
  then show ?thesis by (simp add: post_handler_def)
next
  case (Inr book)
  show ?thesis
  proof (cases "FindOne_Decode (fault1 env) (objToComapare book) c")
    case (Inr existingBook)
    with \<open>bound = Inr book\<close> show ?thesis by (simp add: post_handler_def)
  next
    case (Inl found)
    show ?thesis
    proof (cases "InsertOne (fault2 env) (fresh env) (marshal_BookStore (bookStore_of book)) c")
      case (Inl e)
      with \<open>bound = Inr book\<close> \<open>FindOne_Decode (fault1 env) (objToComapare book) c = Inl found\<close>
      show ?thesis by (simp add: post_handler_def)
    next
      case (Inr r)
      obtain k c' where r: "r = (k, c')" by (cases r)
      from Inr r obtain d' where "c' = c @ [d']"
        using InsertOne_appends by blast
      with Inr r \<open>bound = Inr book\<close>
        \<open>FindOne_Decode (fault1 env) (objToComapare book) c = Inl found\<close>
      show ?thesis by (cases k) (simp_all add: post_handler_def)
    qed
  qed
qed

lemma filter_first:
  "list_ex P xs \<Longrightarrow> \<exists>d ds. filter P xs = d # ds \<and> d \<in> set xs"
  by (induction xs) auto

lemma filter_none: "\<not> list_ex P xs \<Longrightarrow> filter P xs = []"
  by (induction xs) auto

lemma objToComapare_elems:
  "(k, v) \<in> set (objToComapare book) \<longleftrightarrow>
     k = ''bookname'' \<and> v = BString (Name book) \<and> Name book \<noteq> [] \<or>
     k = ''bookauthor'' \<and> v = BString (Author book) \<and> Author book \<noteq> [] \<or>
     k = ''bookpages'' \<and> v = BInt (Pages book) \<and> Pages book \<noteq> 0 \<or>
     k = ''bookyear'' \<and> v = BInt (Year book) \<and> Year book \<noteq> 0 \<or>
     k = ''bookisbn'' \<and> v = BString (Isbn book) \<and> Isbn book \<noteq> []"
  by (auto simp: objToComapare_def)

text \<open>
  Claim C4 fails on the code in one part. On a collection of book records, for a POST
  request whose filter (the supplied fields that are non-empty strings or non-zero
  integers, under the stored lower-case names) matches some stored document, and when the
  lookup succeeds: the handler inserts nothing, the collection is as it was, and the
  filter holds exactly those fields. But the handler hands the submitted payload to
  \<^verbatim>\<open>c.JSON\<close> with status 304, a status that takes no body: the caller receives 304
  and zero bytes, not the payload.
\<close>

theorem post_duplicate_no_insert:
  assumes "list_all book_doc c" and "\<not> fault1 env"
    and "list_ex (matches (objToComapare book)) c"
  shows "post_handler env (Inr book) c = (c, Reply 304 NoBody) \<and>
         JSON 304 (JPost book) \<noteq> Reply 304 (JPost book) \<and>
         ((k, v) \<in> set (objToComapare book) \<longleftrightarrow>
            k = ''bookname'' \<and> v = BString (Name book) \<and> Name book \<noteq> [] \<or>
            k = ''bookauthor'' \<and> v = BString (Author book) \<and> Author book \<noteq> [] \<or>
            k = ''bookpages'' \<and> v = BInt (Pages book) \<and> Pages book \<noteq> 0 \<or>
            k = ''bookyear'' \<and> v = BInt (Year book) \<and> Year book \<noteq> 0 \<or>
            k = ''bookisbn'' \<and> v = BString (Isbn book) \<and> Isbn book \<noteq> [])"
proof (intro conjI)
  from filter_first [OF assms(3)] obtain d ds where
    f: "filter (matches (objToComapare book)) c = d # ds" and "d \<in> set c"
    by blast
  with assms(1) have "book_doc d" by (simp add: list_all_iff)
  then have "decode_BookStore d = Inr (record_of d)" by (rule decode_book_doc)
  with f assms(2) have "FindOne_Decode (fault1 env) (objToComapare book) c = Inr (record_of d)"
    by (simp add: FindOne_Decode_def)
  then show "post_handler env (Inr book) c = (c, Reply 304 NoBody)"
    by (simp add: post_handler_def)
qed (simp, rule objToComapare_elems)

theorem post_duplicate_no_insert_witness:
  "list_all book_doc seeded \<and> \<not> fault1 demo_env \<and>
   list_ex (matches (objToComapare shelley_req)) seeded \<and>
   objToComapare shelley_req = [(''bookauthor'', BString ''Mary Shelley'')] \<and>
   post_handler demo_env (Inr shelley_req) seeded = (seeded, Reply 304 NoBody)"
proof -
  have h1: "list_all book_doc seeded" by code_simp
  have h2: "\<not> fault1 demo_env" by (simp add: demo_env_def)
  have h3: "list_ex (matches (objToComapare shelley_req)) seeded" by code_simp
  have h4: "objToComapare shelley_req = [(''bookauthor'', BString ''Mary Shelley'')]" by code_simp
  from post_duplicate_no_insert [OF h1 h2 h3] h1 h2 h3 h4 show ?thesis by simp
qed

lemma marshal_without_id:
  "map_of (marshal_BookStore (bookStore_of book)) ''_id'' = None"
  "(''_id'', BObjectID oid) # marshal_BookStore (bookStore_of book) = stored_doc oid (bookStore_of book)"
  by (simp_all add: marshal_BookStore_def bookStore_of_def stored_doc_def)

text \<open>
  Claim C5. For a POST request whose filter matches no stored document, when the insert
  succeeds: the handler adds exactly one document, at the end, holding the submitted
  fields under the generated identifier, and replies 200 with the submitted fields and
  the display string of that identifier, which is not empty and differs from the display
  string of every identifier in the collection before.
\<close>

theorem post_novel_inserts:
  assumes "\<not> list_ex (matches (objToComapare book)) c"
    and "InsertOne (fault2 env) (fresh env) (marshal_BookStore (bookStore_of book)) c = Inr r"
  shows "post_handler env (Inr book) c =
           (c @ [stored_doc (fresh env) (bookStore_of book)],
            Reply 200 (JBook (payload_of (Hex (fresh env)) book))) \<and>
         response_of (stored_doc (fresh env) (bookStore_of book)) = payload_of (Hex (fresh env)) book \<and>
         Hex (fresh env) \<noteq> [] \<and>
         (\<forall>oid. BObjectID oid \<in> set (coll_ids c) \<longrightarrow> Hex oid \<noteq> Hex (fresh env))"
proof -
  have find: "\<exists>e. FindOne_Decode (fault1 env) (objToComapare book) c = Inl e"
    using assms(1) by (simp add: FindOne_Decode_def filter_none)
  from assms(2) have ok: "\<not> fault2 env" "BObjectID (fresh env) \<notin> set (coll_ids c)"
    and r: "r = (BObjectID (fresh env), c @ [stored_doc (fresh env) (bookStore_of book)])"
    by (auto simp: InsertOne_def marshal_without_id Let_def split: if_splits)
  from find assms(2) r have "post_handler env (Inr book) c =
           (c @ [stored_doc (fresh env) (bookStore_of book)],
            Reply 200 (JBook (payload_of (Hex (fresh env)) book)))"
    by (auto simp: post_handler_def)
  moreover have "response_of (stored_doc (fresh env) (bookStore_of book)) = payload_of (Hex (fresh env)) book"
    by (simp add: response_of_stored_doc payload_of_def bookStore_of_def)
  moreover from ok(2) have "\<forall>oid. BObjectID oid \<in> set (coll_ids c) \<longrightarrow> Hex oid \<noteq> Hex (fresh env)"
    by (auto simp: Hex_inject)
  ultimately show ?thesis by (simp add: Hex_nonempty)
qed

theorem post_novel_inserts_witness:
  "\<not> list_ex (matches (objToComapare novel_req)) seeded \<and>
   InsertOne (fault2 demo_env) (fresh demo_env) (marshal_BookStore (bookStore_of novel_req)) seeded =
     Inr (BObjectID 4, seeded @ [stored_doc 4 (bookStore_of novel_req)]) \<and>
   post_handler demo_env (Inr novel_req) seeded =
     (seeded @ [stored_doc 4 (bookStore_of novel_req)],
      Reply 200 (JBook (payload_of ''000000000000000000000004'' novel_req)))"
proof -
  have h1: "\<not> list_ex (matches (objToComapare novel_req)) seeded" by code_simp
  have h2: "InsertOne (fault2 demo_env) (fresh demo_env) (marshal_BookStore (bookStore_of novel_req)) seeded =
     Inr (BObjectID 4, seeded @ [stored_doc 4 (bookStore_of novel_req)])" by code_simp
  have h3: "fresh demo_env = 4" by (simp add: demo_env_def)
  have h4: "Hex 4 = ''000000000000000000000004''" by code_simp
  from post_novel_inserts [OF h1 h2] h1 h2 h3 h4 show ?thesis by simp
qed

section \<open>Startup\<close>

lemma decode_all_length: "decode_all ds = Inr bs \<Longrightarrow> length bs = length ds"
  by (induction ds arbitrary: bs) (auto split: sum.splits)

lemma marshal_seed:
  "ID s = NilObjectID \<Longrightarrow> (''_id'', BObjectID new) # marshal_BookStore s = stored_doc new s"
  "ID s = NilObjectID \<Longrightarrow> map_of (marshal_BookStore s) ''_id'' = None"
  by (simp_all add: marshal_BookStore_def stored_doc_def)

lemma InsertOne_seed:
  assumes "InsertOne fl new (marshal_BookStore s) c = Inr (r, c')" and "ID s = NilObjectID"
  shows "c' = c @ [stored_doc new s]"
  using assms by (auto simp: InsertOne_def marshal_seed Let_def split: if_splits)

lemma matches_seed_stored:
  "ID s = NilObjectID \<Longrightarrow>
   matches (marshal_BookStore s) (stored_doc new s') \<longleftrightarrow>
     BookName s' = BookName s \<and> BookAuthor s' = BookAuthor s \<and> BookISBN s' = BookISBN s \<and>
     BookPages s' = BookPages s \<and> BookYear s' = BookYear s"
  by (simp add: matches_def field_matches_def marshal_BookStore_def stored_doc_def)

lemma decode_stored: "decode_BookStore (stored_doc new s) = Inr (record_of (stored_doc new s))"
  using book_doc_stored [of "[]" new s] by (simp add: decode_book_doc)

lemma loop_keeps_filter:
  assumes "prepareData_loop env i seeds c = (Completed, c1)"
    and "\<forall>s \<in> set seeds. ID s = NilObjectID"
    and "\<forall>s \<in> set seeds. \<forall>new. \<not> matches f (stored_doc new s)"
  shows "filter (matches f) c1 = filter (matches f) c"
  using assms
proof (induction seeds arbitrary: i c)
  case Nil
  then show ?case by simp
next
  case (Cons s rest)
  from Cons.prems(1) obtain results where
    find: "Find_All (fault1 (env i)) (marshal_BookStore s) c = Inr results"
    by (auto split: sum.splits)
  from Cons.prems(2,3) have nil: "ID s = NilObjectID" "\<forall>s \<in> set rest. ID s = NilObjectID"
    and nm: "\<And>new. \<not> matches f (stored_doc new s)"
      "\<forall>s \<in> set rest. \<forall>new. \<not> matches f (stored_doc new s)"
    by simp_all
  show ?case
  proof (cases "length results = 0")
    case True
    with Cons.prems(1) find obtain r c' where
      ins: "InsertOne (fault2 (env i)) (fresh (env i)) (marshal_BookStore s) c = Inr (r, c')"
      and loop: "prepareData_loop env (Suc i) rest c' = (Completed, c1)"
      by (auto split: sum.splits)
    from InsertOne_seed [OF ins nil(1)] have c': "c' = c @ [stored_doc (fresh (env i)) s]" .
    from Cons.IH [OF loop nil(2) nm(2)] show ?thesis
      by (simp add: c' nm(1))
  next
    case False
    with Cons.prems(1) find have loop: "prepareData_loop env (Suc i) rest c = (Completed, c1)"
      by (auto split: if_splits)
    from Cons.IH [OF loop nil(2) nm(2)] show ?thesis .
  qed
qed

lemma loop_one_each:
  assumes "prepareData_loop env i seeds c = (Completed, c1)"
    and "\<forall>s \<in> set seeds. ID s = NilObjectID"
    and "distinct (map BookName seeds)"
  shows "\<forall>s \<in> set seeds. \<exists>b. Find_All False (marshal_BookStore s) c1 = Inr [b]"
  using assms
proof (induction seeds arbitrary: i c)
  case Nil
  then show ?case by simp
next
  case (Cons s rest)
  from Cons.prems(1) obtain results where
    find: "Find_All (fault1 (env i)) (marshal_BookStore s) c = Inr results"
    by (auto split: sum.splits)
  then have dec: "decode_all (filter (matches (marshal_BookStore s)) c) = Inr results"
    by (simp add: Find_All_def split: if_splits)
  from Cons.prems(2,3) have nil: "ID s = NilObjectID" "\<forall>s \<in> set rest. ID s = NilObjectID"
    and dist: "distinct (map BookName rest)" and other: "\<forall>s' \<in> set rest. BookName s' \<noteq> BookName s"
    by (simp_all, metis imageI)
  from other nil(1) have nm: "\<forall>s' \<in> set rest. \<forall>new. \<not> matches (marshal_BookStore s) (stored_doc new s')"
    by (simp add: matches_seed_stored)
  show ?case
  proof (cases "length results = 0")
    case True
    with Cons.prems(1) find obtain r c' where
      ins: "InsertOne (fault2 (env i)) (fresh (env i)) (marshal_BookStore s) c = Inr (r, c')"
      and loop: "prepareData_loop env (Suc i) rest c' = (Completed, c1)"
      by (auto split: sum.splits)
    from InsertOne_seed [OF ins nil(1)] have c': "c' = c @ [stored_doc (fresh (env i)) s]" .
    from True decode_all_length [OF dec] have none: "filter (matches (marshal_BookStore s)) c = []"
      by simp
    have "filter (matches (marshal_BookStore s)) c1 = filter (matches (marshal_BookStore s)) c'"
      using loop nil(2) nm by (rule loop_keeps_filter)
    also have "\<dots> = [stored_doc (fresh (env i)) s]"
      by (simp add: c' none matches_seed_stored nil(1))
    finally have "Find_All False (marshal_BookStore s) c1 = Inr [record_of (stored_doc (fresh (env i)) s)]"
      by (simp add: Find_All_def decode_stored)
    with Cons.IH [OF loop nil(2) dist] show ?thesis by auto
  next
    case False
    with Cons.prems(1) find have "\<not> 1 < length results"
      and loop: "prepareData_loop env (Suc i) rest c = (Completed, c1)"
      by (auto split: if_splits)
    with False have one: "length results = 1" by (cases results) auto
    from one obtain b where b: "results = [b]"
      by (cases results) auto
    have "filter (matches (marshal_BookStore s)) c1 = filter (matches (marshal_BookStore s)) c"
      using loop nil(2) nm by (rule loop_keeps_filter)
    with dec b have "Find_All False (marshal_BookStore s) c1 = Inr [b]"
      by (simp add: Find_All_def)
    with Cons.IH [OF loop nil(2) dist] show ?thesis by auto
  qed
qed

lemma loop_again:
  assumes "\<forall>s \<in> set seeds. \<exists>b. Find_All False (marshal_BookStore s) c1 = Inr [b]"
    and "\<forall>j. \<not> fault1 (env' j)"
  shows "prepareData_loop env' i seeds c1 = (Completed, c1)"
  using assms(1)
proof (induction seeds arbitrary: i)
  case Nil
  then show ?case by simp
next
  case (Cons s rest)
  then obtain b where "Find_All False (marshal_BookStore s) c1 = Inr [b]" by auto
  with assms(2) have "Find_All (fault1 (env' i)) (marshal_BookStore s) c1 = Inr [b]" by simp
  with Cons show ?case by simp
qed

lemma one_match:
  "Find_All False f c = Inr [b] \<Longrightarrow> length (filter (matches f) c) = 1"
  using decode_all_length [of "filter (matches f) c" "[b]"] by (simp add: Find_All_def)

lemma bootstrap_loop: "bootstrap sv env c = prepareData_loop env 0 (startData_of sv) c"
  by (cases sv) (simp_all add: bootstrap_def startData_of_def prepareData_def prepareData_post_def)

lemma startData_of_seeds: "\<exists>a. startData_of sv = seed_books a"
  by (cases sv) (auto simp: startData_of_def startData_def startData_post_def)

lemma seed_books_props:
  "\<forall>s \<in> set (seed_books a). ID s = NilObjectID"
  "distinct (map BookName (seed_books a))"
  by (simp_all add: seed_books_def)

lemma loop_from_empty:
  assumes "prepareData_loop env 0 [s0, s1, s2] [] = (Completed, c1)"
    and "ID s0 = NilObjectID" "ID s1 = NilObjectID" "ID s2 = NilObjectID"
    and "BookName s0 \<noteq> BookName s1" "BookName s0 \<noteq> BookName s2" "BookName s1 \<noteq> BookName s2"
  shows "c1 = [stored_doc (fresh (env 0)) s0, stored_doc (fresh (env 1)) s1,
               stored_doc (fresh (env 2)) s2]"
proof -
  from assms(1) obtain r0 c0 where
    i0: "InsertOne (fault2 (env 0)) (fresh (env 0)) (marshal_BookStore s0) [] = Inr (r0, c0)"
    and l1: "prepareData_loop env (Suc 0) [s1, s2] c0 = (Completed, c1)"
    by (auto simp: Find_All_def split: if_splits sum.splits)
  from InsertOne_seed [OF i0 assms(2)] have c0: "c0 = [stored_doc (fresh (env 0)) s0]" by simp
  have f1: "filter (matches (marshal_BookStore s1)) c0 = []"
    using assms(3,5) by (simp add: c0 matches_seed_stored)
  from l1 f1 obtain r1 c2 where
    i1: "InsertOne (fault2 (env 1)) (fresh (env 1)) (marshal_BookStore s1) c0 = Inr (r1, c2)"
    and l2: "prepareData_loop env (Suc (Suc 0)) [s2] c2 = (Completed, c1)"
    by (auto simp: Find_All_def split: if_splits sum.splits)
  from InsertOne_seed [OF i1 assms(3)] have c2: "c2 = c0 @ [stored_doc (fresh (env 1)) s1]" .
  have f2: "filter (matches (marshal_BookStore s2)) c2 = []"
    using assms(4,6,7) by (simp add: c2 c0 matches_seed_stored)
  from l2 f2 obtain r2 c3 where
    i2: "InsertOne (fault2 (env 2)) (fresh (env 2)) (marshal_BookStore s2) c2 = Inr (r2, c3)"
    and l3: "c3 = c1"
    by (auto simp: Find_All_def numeral_2_eq_2 split: if_splits sum.splits)
  from InsertOne_seed [OF i2 assms(4)] l3 show ?thesis by (simp add: c2 c0)
qed

text \<open>
  Claim C6, amended. For every collection state from which a service's startup run
  completes, a second run of the same service whose probes succeed completes as well and
  leaves the collection as the first run left it: it inserts nothing and does not halt.
  Each of the service's three seed probes then matches exactly one stored record. When
  the collection was empty before the first run, it holds after it exactly the three
  seed records, in order, under the identifiers the driver generated.
\<close>

theorem bootstrap_twice:
  assumes "bootstrap sv env c = (Completed, c1)" and "\<forall>j. \<not> fault1 (env' j)"
  shows "bootstrap sv env' c1 = (Completed, c1) \<and>
         (\<forall>s \<in> set (startData_of sv). length (filter (matches (marshal_BookStore s)) c1) = 1) \<and>
         (c = [] \<longrightarrow>
            c1 = [stored_doc (fresh (env 0)) (startData_of sv ! 0),
                  stored_doc (fresh (env 1)) (startData_of sv ! 1),
                  stored_doc (fresh (env 2)) (startData_of sv ! 2)])"
proof -
  obtain a where a: "startData_of sv = seed_books a"
    using startData_of_seeds by blast
  from assms(1) have loop: "prepareData_loop env 0 (seed_books a) c = (Completed, c1)"
    by (simp add: bootstrap_loop a)
  have each: "\<forall>s \<in> set (seed_books a). \<exists>b. Find_All False (marshal_BookStore s) c1 = Inr [b]"
    using loop seed_books_props [of a] by (rule loop_one_each)
  then have again: "prepareData_loop env' 0 (seed_books a) c1 = (Completed, c1)"
    using assms(2) by (rule loop_again)
  from each have count: "\<forall>s \<in> set (seed_books a). length (filter (matches (marshal_BookStore s)) c1) = 1"
    using one_match by blast
  have empty: "c = [] \<longrightarrow>
            c1 = [stored_doc (fresh (env 0)) (seed_books a ! 0),
                  stored_doc (fresh (env 1)) (seed_books a ! 1),
                  stored_doc (fresh (env 2)) (seed_books a ! 2)]"
  proof
    assume "c = []"
    with loop show "c1 = [stored_doc (fresh (env 0)) (seed_books a ! 0),
                  stored_doc (fresh (env 1)) (seed_books a ! 1),
                  stored_doc (fresh (env 2)) (seed_books a ! 2)]"
      unfolding seed_books_def by (intro loop_from_empty) simp_all
  qed
  from again count empty show ?thesis
    by (simp add: bootstrap_loop a)
qed

theorem bootstrap_twice_witness:
  "bootstrap DELETE_service (boot_env 1) [] = (Completed, seeded) \<and>
   bootstrap DELETE_service (boot_env 4) seeded = (Completed, seeded) \<and>
   length seeded = 3"
proof -
  have h1: "bootstrap DELETE_service (boot_env 1) [] = (Completed, seeded)" by code_simp
  have h2: "\<forall>j. \<not> fault1 (boot_env 4 j)" by (simp add: boot_env_def)
  have h3: "length seeded = 3" by (simp add: seeded_def)
  from bootstrap_twice [OF h1 h2]
  have "bootstrap DELETE_service (boot_env 4) seeded = (Completed, seeded)"
    by (rule conjunct1)
  with h1 h3 show ?thesis by blast
qed

text \<open>
  Claim C6, as stated for every collection state, fails. On a collection that holds the
  first seed record twice, the run halts with \<^verbatim>\<open>log.Fatal\<close>, the first time and the
  second. On a collection that holds one other book, two runs leave four records.
\<close>

theorem bootstrap_not_for_every_state:
  "fst (bootstrap DELETE_service (boot_env 8)
         (snd (bootstrap DELETE_service (boot_env 5)
                [stored_doc 1 (startData ! 0), stored_doc 2 (startData ! 0)]))) = LogFatal \<and>
   length (snd (bootstrap DELETE_service (boot_env 8)
                 (snd (bootstrap DELETE_service (boot_env 5)
                        [stored_doc 1 (bookStore_of novel_req)])))) = 4"
  by code_simp

text \<open>
  Claim C7 fails on the code. The seed literal of the POST service spells the author of
  the first seed record with other bytes than the literal of the DELETE service and of
  the frontend, so the probe of one does not match the record of the other. After a
  start of the POST service and a start of the DELETE service on the empty collection,
  the collection holds four records and GET lists two entries with name
  \<^verbatim>\<open>The Vortex\<close> and year 1924.
\<close>

theorem vortex_seeded_twice:
  "length (filter (\<lambda>b. Name b = ''The Vortex'' \<and> Year b = 1924)
            (map response_of (restarts [(POST_service, boot_env 1), (DELETE_service, boot_env 4)] []))) = 2 \<and>
   snd (get_handler demo_env (restarts [(POST_service, boot_env 1), (DELETE_service, boot_env 4)] [])) =
     Reply 200 (JBooks (map response_of
       (restarts [(POST_service, boot_env 1), (DELETE_service, boot_env 4)] []))) \<and>
   length (restarts [(POST_service, boot_env 1), (DELETE_service, boot_env 4)] []) = 4"
  by code_simp

section \<open>The collections the program reaches\<close>

text \<open>
  The empty collection is a collection of book records, and every handler and every
  start takes a collection of book records to one, whatever faults it meets and whatever
  identifiers the driver generates. Starts of services with the same seed literal, after
  a first one that completed, change nothing.
\<close>

lemma book_coll_empty: "book_coll []"
  by (simp add: book_coll_def coll_ids_def)

lemma coll_ids_append: "coll_ids (c @ c') = coll_ids c @ coll_ids c'"
  by (simp add: coll_ids_def List.map_filter_def)

lemma InsertOne_book_coll:
  assumes "book_coll c" and "ID s = NilObjectID"
    and "InsertOne fl new (marshal_BookStore s) c = Inr (r, c')"
  shows "book_coll c'"
proof -
  from assms(3) have new: "BObjectID new \<notin> set (coll_ids c)"
    by (auto simp: InsertOne_def marshal_seed [OF assms(2)] Let_def split: if_splits)
  have c': "c' = c @ [stored_doc new s]"
    using assms(3,2) by (rule InsertOne_seed)
  have "book_doc (stored_doc new s)"
    using book_doc_stored [of "[]" new s] by simp
  moreover have "coll_ids [stored_doc new s] = [BObjectID new]"
    by (simp add: coll_ids_def stored_doc_def)
  ultimately show ?thesis
    using assms(1) new by (simp add: book_coll_def c' coll_ids_append)
qed

lemma post_handler_book_coll:
  assumes "book_coll c"
  shows "book_coll (fst (post_handler env bound c))"
proof (cases bound)
  case (Inl e)
  with assms show ?thesis by (simp add: post_handler_def)
next
  case (Inr book)
  have nil: "ID (bookStore_of book) = NilObjectID" by (simp add: bookStore_of_def)
  show ?thesis
  proof (cases "FindOne_Decode (fault1 env) (objToComapare book) c")
    case (Inr existingBook)
    with \<open>bound = Inr book\<close> assms show ?thesis by (simp add: post_handler_def)
  next
    case (Inl found)
    show ?thesis
    proof (cases "InsertOne (fault2 env) (fresh env) (marshal_BookStore (bookStore_of book)) c")
      case (Inl e)
      with \<open>bound = Inr book\<close> \<open>FindOne_Decode (fault1 env) (objToComapare book) c = Inl found\<close> assms
      show ?thesis by (simp add: post_handler_def)
    next
      case (Inr r)
      obtain k c' where r: "r = (k, c')" by (cases r)
      from Inr r have "book_coll c'"
        using InsertOne_book_coll [OF assms nil] by simp
      with Inr r \<open>bound = Inr book\<close>
        \<open>FindOne_Decode (fault1 env) (objToComapare book) c = Inl found\<close>
      show ?thesis by (cases k) (simp_all add: post_handler_def)
    qed
  qed
qed

lemma put_handler_book_coll:
  assumes "book_coll c"
  shows "book_coll (fst (put_handler env bound c))"
proof (cases bound)
  case (Inl e)
  with assms show ?thesis by (simp add: put_handler_def)
next
  case (Inr req)
  from assms have "list_all book_doc c" "distinct (coll_ids c)"
    by (simp_all add: book_coll_def)
  then show ?thesis
    using Inr assms
    by (simp add: put_handler_def UpdateOne_def Let_def book_coll_def
        update_first_book_docs update_first_ids)
qed

lemma set_delete_first: "set (delete_first P xs) \<subseteq> set xs"
  by (induction xs) auto

lemma distinct_map_delete_first:
  "distinct (map f xs) \<Longrightarrow> distinct (map f (delete_first P xs))"
proof (induction xs)
  case Nil
  then show ?case by simp
next
  case (Cons x xs)
  have "f x \<notin> f ` set (delete_first P xs)"
    using Cons.prems set_delete_first [of P xs] by auto
  with Cons show ?case by simp
qed

lemma delete_first_book_coll:
  assumes "book_coll c"
  shows "book_coll (delete_first P c)"
proof -
  from assms have docs: "list_all book_doc c" and dist: "distinct (coll_ids c)"
    by (simp_all add: book_coll_def)
  from docs have docs': "list_all book_doc (delete_first P c)"
    using set_delete_first [of P c] by (auto simp: list_all_iff)
  from dist have "distinct (map (BObjectID \<circ> oid_of) (delete_first P c))"
    unfolding coll_ids_book_docs [OF docs] by (rule distinct_map_delete_first)
  with docs' show ?thesis
    by (simp add: book_coll_def coll_ids_book_docs)
qed

lemma DeleteOne_go_book_coll:
  "book_coll c \<Longrightarrow> book_coll (snd (DeleteOne_go fl ops f c))"
  by (simp add: DeleteOne_go_def DeleteOne_def delete_first_book_coll split: option.splits)

lemma delete_handler_book_coll:
  assumes "book_coll c"
  shows "book_coll (fst (delete_handler ops env ident c))"
proof -
  obtain res1 err1 c1 where d1: "DeleteOne_go (fault1 env) ops [(''id'', BString ident)] c = ((res1, err1), c1)"
    by (metis surj_pair)
  obtain res2 err2 c2 where d2: "DeleteOne_go (fault2 env) ops [(ident, BNull)] c1 = ((res2, err2), c2)"
    by (metis surj_pair)
  from DeleteOne_go_book_coll [OF assms, of "fault1 env" ops "[(''id'', BString ident)]"] d1
  have b1: "book_coll c1" by simp
  from DeleteOne_go_book_coll [OF b1, of "fault2 env" ops "[(ident, BNull)]"] d2
  have b2: "book_coll c2" by simp
  from b1 b2 show ?thesis
    by (simp add: delete_handler_def d1 d2 split: option.splits)
qed

lemma loop_book_coll:
  assumes "book_coll c" and "\<forall>s \<in> set seeds. ID s = NilObjectID"
  shows "book_coll (snd (prepareData_loop env i seeds c))"
  using assms
proof (induction seeds arbitrary: i c)
  case Nil
  then show ?case by simp
next
  case (Cons s rest)
  then have nil: "ID s = NilObjectID" "\<forall>s \<in> set rest. ID s = NilObjectID" by simp_all
  show ?case
    using Cons.prems(1) Cons.IH [OF _ nil(2)] InsertOne_book_coll [OF Cons.prems(1) nil(1)]
    by (auto split: sum.splits)
qed

lemma bootstrap_book_coll: "book_coll c \<Longrightarrow> book_coll (snd (bootstrap sv env c))"
  using startData_of_seeds [of sv] seed_books_props(1)
  by (auto simp: bootstrap_loop intro: loop_book_coll)

lemma restarts_book_coll: "book_coll c \<Longrightarrow> book_coll (restarts runs c)"
  by (induction runs arbitrary: c) (simp_all add: bootstrap_book_coll)

lemma restarts_same_literal:
  assumes "bootstrap sv env c = (Completed, c1)"
    and "\<forall>run \<in> set runs. startData_of (fst run) = startData_of sv \<and> (\<forall>j. \<not> fault1 (snd run j))"
  shows "restarts runs c1 = c1"
proof -
  obtain a where a: "startData_of sv = seed_books a"
    using startData_of_seeds by blast
  from assms(1) have "prepareData_loop env 0 (seed_books a) c = (Completed, c1)"
    by (simp add: bootstrap_loop a)
  then have each: "\<forall>s \<in> set (seed_books a). \<exists>b. Find_All False (marshal_BookStore s) c1 = Inr [b]"
    using seed_books_props [of a] by (rule loop_one_each)
  from assms(2) show ?thesis
  proof (induction runs)
    case Nil
    then show ?case by simp
  next
    case (Cons run rest)
    then have "startData_of (fst run) = seed_books a" and nf: "\<forall>j. \<not> fault1 (snd run j)"
      by (simp_all add: a)
    then have "bootstrap (fst run) (snd run) c1 = (Completed, c1)"
      using loop_again [OF each nf] by (simp add: bootstrap_loop)
    with Cons show ?case by simp
  qed
qed

end
